theory Spec2Isabelle
  imports Complex_Main
begin

section \<open>The mail sync service (inbox/mailsync/service.py)\<close>

text \<open>
  A shallow embedding of \<^verbatim>\<open>SyncService\<close>: its bookkeeping attributes, its
  operations \<^verbatim>\<open>poll\<close>, \<^verbatim>\<open>accounts_to_sync\<close>, \<^verbatim>\<open>start_sync\<close> and \<^verbatim>\<open>stop_sync\<close>,
  and the collaborators they call. Every call on a collaborator is appended to a trace of
  events, so that "which calls were issued" is a property of the final state. A Python
  exception is a value \<open>Inl e\<close> of the result, returned together with the state as it was
  when the exception left the function.
\<close>

subsection \<open>Data\<close>

datatype exn =
    OperationalError   \<comment> \<open>sqlalchemy.exc.OperationalError, the transient storage error\<close>
  | AttributeError     \<comment> \<open>attribute access on \<^verbatim>\<open>None\<close>\<close>
  | KeyError           \<comment> \<open>a provider missing from \<^verbatim>\<open>monitor_cls_for\<close>\<close>
  | MonitorError       \<comment> \<open>whatever a monitor's constructor or \<^verbatim>\<open>start()\<close> raises\<close>

datatype kind = Email | Contacts | Events

datatype level = Info | Error

datatype marker = NoMarker | SyncStarted | SyncStopped

text \<open>
  The attributes of an \<^verbatim>\<open>Account\<close> row that the service reads or writes. The row's
  \<^verbatim>\<open>id\<close> is the primary key it is looked up by (\<^verbatim>\<open>query(Account).get(account_id)\<close>), so
  \<^verbatim>\<open>acc.id\<close> is the key and is not stored again.
\<close>

record account =
  email_address :: string
  provider :: string
  verbose_provider :: string
  namespace_id :: int
  sync_email :: bool
  sync_contacts :: bool
  sync_events :: bool
  provider_info :: "(string \<times> bool) list"
  sync_host :: "string option"
  sync_should_run :: bool
  sync_marker :: marker

datatype event =
    Log level string "int option"   \<comment> \<open>\<^verbatim>\<open>self.log.info / self.log.error\<close>, with its account id\<close>
  | LogUncaught                      \<comment> \<open>\<^verbatim>\<open>log_uncaught_errors()\<close>\<close>
  | Gauge nat                        \<comment> \<open>\<^verbatim>\<open>statsd_client.gauge\<close>\<close>
  | CallStart int                    \<comment> \<open>entry of \<^verbatim>\<open>start_sync(account_id)\<close>\<close>
  | CallStop int                     \<comment> \<open>entry of \<^verbatim>\<open>stop_sync(account_id)\<close>\<close>
  | ClaimNext string                 \<comment> \<open>\<^verbatim>\<open>queue_client.claim_next(pid)\<close>\<close>
  | Unassign int string              \<comment> \<open>\<^verbatim>\<open>queue_client.unassign(account_id, pid)\<close>\<close>
  | Constructed kind string int nat  \<comment> \<open>a monitor of a class built for an account: its handle\<close>
  | Started nat                      \<comment> \<open>\<^verbatim>\<open>monitor.start()\<close>\<close>
  | Killed nat                       \<comment> \<open>\<^verbatim>\<open>monitor.kill()\<close>\<close>
  | ClearHeartbeat int               \<comment> \<open>\<^verbatim>\<open>clear_heartbeat_status(acc.id)\<close>\<close>

text \<open>
  The state: the attributes of the \<^verbatim>\<open>SyncService\<close> object, followed by the state of its
  collaborators. The Python set \<^verbatim>\<open>syncing_accounts\<close> is a list without repetition whose
  order stands for the set's iteration order; the three monitor dictionaries map an account
  id to the handle of the monitor object stored there. \<^verbatim>\<open>monitor_cls_for\<close> is the registry
  built by the constructor, and \<^verbatim>\<open>use_google_push_notifications\<close> the module constant.
\<close>

record state =
  process_identifier :: string
  stealing_enabled :: bool
  use_google_push_notifications :: bool
  monitor_cls_for :: "(string \<times> string) list"
  syncing_accounts :: "int list"
  email_sync_monitors :: "int \<rightharpoonup> nat"
  contact_sync_monitors :: "int \<rightharpoonup> nat"
  event_sync_monitors :: "int \<rightharpoonup> nat"
  accounts :: "int \<rightharpoonup> account"
  assignment :: "(int \<times> string) list"
  claimable :: "int list"
  next_handle :: nat
  trace :: "event list"

text \<open>
  What the collaborators do wrong during one call is a parameter: whether the persistence
  layer signals a storage error when the row of an account is read, whether it signals one
  when \<^verbatim>\<open>db_session.commit()\<close> writes the row, and whether the constructor or the
  \<^verbatim>\<open>start()\<close> of a monitor of some kind raises for an account.
\<close>

record faults =
  storage_fault :: "int \<Rightarrow> bool"
  commit_fault :: "int \<Rightarrow> bool"
  ctor_fault :: "kind \<Rightarrow> int \<Rightarrow> bool"
  start_fault :: "kind \<Rightarrow> int \<Rightarrow> bool"

definition no_faults :: faults where
  "no_faults = \<lparr>storage_fault = (\<lambda>a. False), commit_fault = (\<lambda>a. False),
                ctor_fault = (\<lambda>k a. False), start_fault = (\<lambda>k a. False)\<rparr>"

subsection \<open>Collaborators\<close>

definition emit :: "event \<Rightarrow> state \<Rightarrow> state" where
  "emit e s = s\<lparr>trace := trace s @ [e]\<rparr>"

text \<open>
  Modelled from the spec: \<^verbatim>\<open>session_scope\<close> and the query of \<^verbatim>\<open>inbox.models\<close> are not
  part of the given source. The lookup \<open>get(accountId) -> Account|none\<close> signals the
  transient storage error apart from "record not found". What is changed on the row inside
  the scope is written back when the scope is left normally (\<open>write_back\<close>), and by
  \<^verbatim>\<open>db_session.commit()\<close>, which raises the storage error when the write fails and then
  leaves the row as it was. The storage errors of a scope are those of its lookup and of
  the \<^verbatim>\<open>commit()\<close> that the source calls: the write on leaving the scope is taken to go
  through.
\<close>

definition session_get :: "faults \<Rightarrow> int \<Rightarrow> state \<Rightarrow> exn + account option" where
  "session_get f a s = (if storage_fault f a then Inl OperationalError else Inr (accounts s a))"

definition write_back :: "int \<Rightarrow> account \<Rightarrow> state \<Rightarrow> state" where
  "write_back a acc s = s\<lparr>accounts := (accounts s)(a \<mapsto> acc)\<rparr>"

definition commit :: "faults \<Rightarrow> int \<Rightarrow> account \<Rightarrow> state \<Rightarrow> (exn + unit) \<times> state" where
  "commit f a acc s =
     (if commit_fault f a then (Inl OperationalError, s) else (Inr (), write_back a acc s))"

text \<open>
  Modelled from the spec: the methods \<^verbatim>\<open>sync_started\<close> and \<^verbatim>\<open>sync_stopped\<close> of
  \<^verbatim>\<open>Account\<close> are not part of the given source. They record the "sync started" and the
  "sync stopped" marker on the row; \<^verbatim>\<open>sync_stopped\<close> answers whether it did.
\<close>

definition sync_started :: "account \<Rightarrow> account" where
  "sync_started acc = acc\<lparr>sync_marker := SyncStarted\<rparr>"

definition sync_stopped :: "string \<Rightarrow> account \<Rightarrow> bool \<times> account" where
  "sync_stopped requesting_host acc = (True, acc\<lparr>sync_marker := SyncStopped\<rparr>)"

text \<open>
  Modelled from the spec: \<^verbatim>\<open>QueueClient\<close> is not part of the given source. This is the
  fake Work Assignment Client: \<open>claimNext\<close> acquires one claimable account for the process
  and returns its id, or nothing; \<open>assigned\<close> is the assignment view; \<open>unassign\<close> releases
  the account if this process owns it and is a no-op otherwise.
\<close>

definition claim_next :: "string \<Rightarrow> state \<Rightarrow> int option \<times> state" where
  "claim_next pid s =
     (case claimable s of
        [] \<Rightarrow> (None, emit (ClaimNext pid) s)
      | a # rest \<Rightarrow>
          (Some a, emit (ClaimNext pid)
             (s\<lparr>claimable := rest,
                assignment := (a, pid) # filter (\<lambda>e. fst e \<noteq> a) (assignment s)\<rparr>)))"

definition assigned :: "state \<Rightarrow> (int \<times> string) list" where
  "assigned s = assignment s"

definition unassign :: "int \<Rightarrow> string \<Rightarrow> state \<Rightarrow> bool \<times> state" where
  "unassign a pid s =
     ((a, pid) \<in> set (assignment s),
      emit (Unassign a pid) (s\<lparr>assignment := filter (\<lambda>e. e \<noteq> (a, pid)) (assignment s)\<rparr>))"

text \<open>
  A monitor object is known by its handle, a fresh number given out by the constructor.
  The constructor and \<^verbatim>\<open>start()\<close> raise when the fault parameter says so.
\<close>

definition construct_monitor :: "faults \<Rightarrow> kind \<Rightarrow> string \<Rightarrow> int \<Rightarrow> state \<Rightarrow> (exn + nat) \<times> state" where
  "construct_monitor f k cls a s =
     (if ctor_fault f k a then (Inl MonitorError, s)
      else (Inr (next_handle s),
            emit (Constructed k cls a (next_handle s)) (s\<lparr>next_handle := Suc (next_handle s)\<rparr>)))"

definition start_monitor :: "faults \<Rightarrow> kind \<Rightarrow> int \<Rightarrow> nat \<Rightarrow> state \<Rightarrow> (exn + unit) \<times> state" where
  "start_monitor f k a h s =
     (if start_fault f k a then (Inl MonitorError, s) else (Inr (), emit (Started h) s))"

definition kill :: "nat \<Rightarrow> state \<Rightarrow> state" where
  "kill h s = emit (Killed h) s"

text \<open>Python truthiness of \<^verbatim>\<open>info.get(key, None)\<close> and of a claimed account id.\<close>

definition info_get :: "account \<Rightarrow> string \<Rightarrow> bool" where
  "info_get acc key = (map_of (provider_info acc) key = Some True)"

definition truthy :: "int option \<Rightarrow> bool" where
  "truthy r = (case r of None \<Rightarrow> False | Some n \<Rightarrow> n \<noteq> 0)"

subsection \<open>start_sync\<close>

text \<open>The three blocks of the \<^verbatim>\<open>try\<close> body, in the source's order.\<close>

definition start_email :: "faults \<Rightarrow> int \<Rightarrow> account \<Rightarrow> state \<Rightarrow> (exn + unit) \<times> state" where
  "start_email f a acc s =
     (if sync_email acc then
        (case map_of (monitor_cls_for s) (provider acc) of
           None \<Rightarrow> (Inl KeyError, s)
         | Some cls \<Rightarrow>
             (case construct_monitor f Email cls a s of
                (Inl e, s1) \<Rightarrow> (Inl e, s1)
              | (Inr h, s1) \<Rightarrow>
                  start_monitor f Email a h
                    (s1\<lparr>email_sync_monitors := (email_sync_monitors s1)(a \<mapsto> h)\<rparr>)))
      else (Inr (), s))"

definition start_contacts :: "faults \<Rightarrow> int \<Rightarrow> account \<Rightarrow> state \<Rightarrow> (exn + unit) \<times> state" where
  "start_contacts f a acc s =
     (if info_get acc ''contacts'' \<and> sync_contacts acc then
        (case construct_monitor f Contacts ''ContactSync'' a s of
           (Inl e, s1) \<Rightarrow> (Inl e, s1)
         | (Inr h, s1) \<Rightarrow>
             start_monitor f Contacts a h
               (s1\<lparr>contact_sync_monitors := (contact_sync_monitors s1)(a \<mapsto> h)\<rparr>))
      else (Inr (), s))"

definition start_events :: "faults \<Rightarrow> int \<Rightarrow> account \<Rightarrow> state \<Rightarrow> (exn + unit) \<times> state" where
  "start_events f a acc s =
     (if info_get acc ''events'' \<and> sync_events acc then
        (case construct_monitor f Events
                (if use_google_push_notifications s \<and> provider acc = ''gmail''
                 then ''GoogleEventSync'' else ''EventSync'') a s of
           (Inl e, s1) \<Rightarrow> (Inl e, s1)
         | (Inr h, s1) \<Rightarrow>
             start_monitor f Events a h
               (s1\<lparr>event_sync_monitors := (event_sync_monitors s1)(a \<mapsto> h)\<rparr>))
      else (Inr (), s))"

definition start_monitors :: "faults \<Rightarrow> int \<Rightarrow> account \<Rightarrow> state \<Rightarrow> (exn + unit) \<times> state" where
  "start_monitors f a acc s =
     (case start_email f a acc s of
        (Inl e, s1) \<Rightarrow> (Inl e, s1)
      | (Inr _, s1) \<Rightarrow>
          (case start_contacts f a acc s1 of
             (Inl e, s2) \<Rightarrow> (Inl e, s2)
           | (Inr _, s2) \<Rightarrow> start_events f a acc s2))"

definition start_sync :: "faults \<Rightarrow> int \<Rightarrow> state \<Rightarrow> (exn + unit) \<times> state" where
  "start_sync f account_id s0 =
     (let s = emit (CallStart account_id) s0 in
      case session_get f account_id s of
        Inl e \<Rightarrow> (Inl e, s)
      | Inr None \<Rightarrow> (Inr (), emit (Log Error ''no such account'' (Some account_id)) s)
      | Inr (Some acc) \<Rightarrow>
          (let s1 = emit (Log Info ''starting sync'' (Some account_id)) s in
           if account_id \<notin> set (syncing_accounts s1) then
             (let acc1 = acc\<lparr>sync_host := Some (process_identifier s1)\<rparr> in
              case start_monitors f account_id acc1 s1 of
                (Inl e, s2) \<Rightarrow>
                  (Inr (), write_back account_id acc1
                             (emit (Log Error ''Error starting sync'' (Some account_id)) s2))
              | (Inr _, s2) \<Rightarrow>
                  (let acc2 = sync_started acc1;
                       s3 = s2\<lparr>syncing_accounts := List.insert account_id (syncing_accounts s2)\<rparr>
                   in case commit f account_id acc2 s3 of
                        (Inl e, s4) \<Rightarrow>
                          (Inr (), emit (Log Error ''Error starting sync'' (Some account_id)) s4)
                      | (Inr _, s4) \<Rightarrow>
                          (Inr (), emit (Log Info ''Sync started'' (Some account_id)) s4)))
           else (Inr (), write_back account_id acc
                           (emit (Log Info ''sync already started'' (Some account_id)) s1))))"

subsection \<open>stop_sync\<close>

definition stop_email :: "int \<Rightarrow> state \<Rightarrow> state" where
  "stop_email a s =
     (case email_sync_monitors s a of
        None \<Rightarrow> s
      | Some h \<Rightarrow> (kill h s)\<lparr>email_sync_monitors := (email_sync_monitors s)(a := None)\<rparr>)"

definition stop_contacts :: "int \<Rightarrow> state \<Rightarrow> state" where
  "stop_contacts a s =
     (case contact_sync_monitors s a of
        None \<Rightarrow> s
      | Some h \<Rightarrow> (kill h s)\<lparr>contact_sync_monitors := (contact_sync_monitors s)(a := None)\<rparr>)"

definition stop_events :: "int \<Rightarrow> state \<Rightarrow> state" where
  "stop_events a s =
     (case event_sync_monitors s a of
        None \<Rightarrow> s
      | Some h \<Rightarrow> (kill h s)\<lparr>event_sync_monitors := (event_sync_monitors s)(a := None)\<rparr>)"

definition stop_monitors :: "int \<Rightarrow> state \<Rightarrow> state" where
  "stop_monitors a s =
     (let s1 = stop_events a (stop_contacts a (stop_email a s))
      in s1\<lparr>syncing_accounts := removeAll a (syncing_accounts s1)\<rparr>)"

definition stop_sync :: "faults \<Rightarrow> int \<Rightarrow> state \<Rightarrow> (exn + bool) \<times> state" where
  "stop_sync f account_id s0 =
     (let s = stop_monitors account_id
                (emit (Log Info ''Stopping monitors'' (Some account_id))
                   (emit (CallStop account_id) s0)) in
      case session_get f account_id s of
        Inl e \<Rightarrow> (Inl e, s)
      | Inr None \<Rightarrow> (Inl AttributeError, s)
      | Inr (Some acc) \<Rightarrow>
          (let s1 = (if \<not> sync_should_run acc then emit (ClearHeartbeat account_id) s else s);
               (ok, acc1) = sync_stopped (process_identifier s1) acc;
               s2 = (if ok then emit (Log Info ''sync stopped'' (Some account_id)) s1 else s1);
               s3 = write_back account_id acc1 s2;
               (r, s4) = unassign account_id (process_identifier s3) s3
           in (Inr r, s4)))"

subsection \<open>poll\<close>

definition accounts_to_sync :: "state \<Rightarrow> int list" where
  "accounts_to_sync s =
     remdups (map fst (filter (\<lambda>(k, v). v = process_identifier s) (assigned s)))"

fun start_loop :: "faults \<Rightarrow> int list \<Rightarrow> state \<Rightarrow> (exn + unit) \<times> state" where
  "start_loop f [] s = (Inr (), s)"
| "start_loop f (account_id # rest) s =
     (if account_id \<notin> set (syncing_accounts s) then
        (case start_sync f account_id s of
           (Inl e, s1) \<Rightarrow>
             if e = OperationalError then
               start_loop f rest
                 (emit LogUncaught (emit (Log Error ''Database error starting account sync'' None) s1))
             else (Inl e, s1)
         | (Inr _, s1) \<Rightarrow> start_loop f rest s1)
      else start_loop f rest s)"

fun stop_loop :: "faults \<Rightarrow> int list \<Rightarrow> state \<Rightarrow> (exn + unit) \<times> state" where
  "stop_loop f [] s = (Inr (), s)"
| "stop_loop f (account_id # rest) s =
     (case stop_sync f account_id
             (emit (Log Info ''sync service stopping sync'' (Some account_id)) s) of
        (Inl e, s1) \<Rightarrow>
          if e = OperationalError then
            stop_loop f rest
              (emit LogUncaught (emit (Log Error ''Database error stopping account sync'' None) s1))
          else (Inl e, s1)
      | (Inr _, s1) \<Rightarrow> stop_loop f rest s1)"

definition overloaded_cpus :: "real list \<Rightarrow> bool" where
  "overloaded_cpus usage_per_cpu = list_all (\<lambda>cpu_usage. cpu_usage > 90.0) usage_per_cpu"

definition acquire :: "real list \<Rightarrow> state \<Rightarrow> state" where
  "acquire usage_per_cpu s =
     (if stealing_enabled s \<and> \<not> overloaded_cpus usage_per_cpu then
        (case claim_next (process_identifier s) s of
           (r, s1) \<Rightarrow> if truthy r then emit (Log Info ''Claimed new account sync'' r) s1 else s1)
      else s)"

definition stop_accounts :: "int list \<Rightarrow> state \<Rightarrow> int list" where
  "stop_accounts start_accounts s = filter (\<lambda>a. a \<notin> set start_accounts) (syncing_accounts s)"

definition poll :: "faults \<Rightarrow> real list \<Rightarrow> state \<Rightarrow> (exn + unit) \<times> state" where
  "poll f usage_per_cpu s0 =
     (let s1 = acquire usage_per_cpu s0;
          start_accounts = accounts_to_sync s1;
          s2 = emit (Gauge (length start_accounts)) s1
      in case start_loop f start_accounts s2 of
           (Inl e, s3) \<Rightarrow> (Inl e, s3)
         | (Inr _, s3) \<Rightarrow> stop_loop f (stop_accounts start_accounts s3) s3)"

subsection \<open>Capabilities and what a state records\<close>

text \<open>
  The three capability tests of \<^verbatim>\<open>start_sync\<close>, by kind; the dictionary of a kind; whether
  the monitor of a kind raises for an account, in its constructor or in its start; and the
  monitor handles recorded for an account, in the order \<^verbatim>\<open>stop_sync\<close> visits them.
\<close>

fun applies :: "kind \<Rightarrow> account \<Rightarrow> bool" where
  "applies Email acc = sync_email acc"
| "applies Contacts acc = (info_get acc ''contacts'' \<and> sync_contacts acc)"
| "applies Events acc = (info_get acc ''events'' \<and> sync_events acc)"

fun monitor_of :: "kind \<Rightarrow> state \<Rightarrow> int \<rightharpoonup> nat" where
  "monitor_of Email s = email_sync_monitors s"
| "monitor_of Contacts s = contact_sync_monitors s"
| "monitor_of Events s = event_sync_monitors s"

definition raises :: "faults \<Rightarrow> kind \<Rightarrow> int \<Rightarrow> bool" where
  "raises f k a = (ctor_fault f k a \<or> start_fault f k a)"

definition recorded :: "state \<Rightarrow> int \<Rightarrow> nat list" where
  "recorded s a =
     List.map_filter (\<lambda>m. m a)
       [email_sync_monitors s, contact_sync_monitors s, event_sync_monitors s]"

subsection \<open>Observing the trace\<close>

text \<open>
  The calls of one class that a state has recorded are a filter of its trace. An operation
  that issues exactly the calls \<open>xs\<close> of the class \<open>P\<close> takes a state \<open>s\<close> to a state \<open>s'\<close>
  with \<open>filter P (trace s') = filter P (trace s) @ xs\<close>. The classes: calls of the
  supervisor, and of \<^verbatim>\<open>start_sync\<close> alone; claims; kills; starts of monitors; the release
  of an account (heartbeat and assignment); error lines.
\<close>

fun is_call :: "event \<Rightarrow> bool" where
  "is_call (CallStart a) = True"
| "is_call (CallStop a) = True"
| "is_call _ = False"

fun is_start_call :: "event \<Rightarrow> bool" where
  "is_start_call (CallStart a) = True"
| "is_start_call _ = False"

fun is_claim :: "event \<Rightarrow> bool" where
  "is_claim (ClaimNext p) = True"
| "is_claim _ = False"

fun is_kill :: "event \<Rightarrow> bool" where
  "is_kill (Killed h) = True"
| "is_kill _ = False"

fun is_started :: "event \<Rightarrow> bool" where
  "is_started (Started h) = True"
| "is_started _ = False"

fun is_release :: "event \<Rightarrow> bool" where
  "is_release (Unassign a p) = True"
| "is_release (ClearHeartbeat a) = True"
| "is_release _ = False"

fun is_error_log :: "event \<Rightarrow> bool" where
  "is_error_log (Log Error m a) = True"
| "is_error_log LogUncaught = True"
| "is_error_log _ = False"

subsection \<open>Sequences of operations\<close>

text \<open>
  A history of the supervisor: calls of \<^verbatim>\<open>start_sync\<close> and \<^verbatim>\<open>stop_sync\<close>, each under its
  own faults, and between them any change of the account rows and of the assignment by the
  rest of the system. Beside the state runs a set that is not in the source: the ids that
  were added to the running set by a start for which none of the three capability tests
  held on the row it read. A stop takes the id out of it.
\<close>

datatype op =
    Start faults int
  | Stop faults int
  | World "int \<rightharpoonup> account" "(int \<times> string) list" "int list"

definition flagless :: "account option \<Rightarrow> bool" where
  "flagless row =
     (case row of
        None \<Rightarrow> False
      | Some acc \<Rightarrow> \<not> (applies Email acc \<or> applies Contacts acc \<or> applies Events acc))"

fun step :: "op \<Rightarrow> state \<times> int set \<Rightarrow> state \<times> int set" where
  "step (Start f a) (s, N) =
     (snd (start_sync f a s),
      if a \<notin> set (syncing_accounts s) \<and> a \<in> set (syncing_accounts (snd (start_sync f a s))) \<and>
         flagless (accounts s a)
      then insert a N else N)"
| "step (Stop f a) (s, N) = (snd (stop_sync f a s), N - {a})"
| "step (World db asg cl) (s, N) = (s\<lparr>accounts := db, assignment := asg, claimable := cl\<rparr>, N)"

fun run :: "op list \<Rightarrow> state \<times> int set \<Rightarrow> state \<times> int set" where
  "run [] c = c"
| "run (x # xs) c = run xs (step x c)"

definition covered :: "state \<times> int set \<Rightarrow> bool" where
  "covered c = (\<forall>a\<in>set (syncing_accounts (fst c)). a \<in> snd c \<or> recorded (fst c) a \<noteq> [])"

subsection \<open>The launch of the monitors, in the spec's words\<close>

text \<open>
  Modelled from the spec: the spec on \<^verbatim>\<open>start\<close> has it that for each enabled capability
  (email, contacts, events) for which the provider declares support, it constructs and
  starts the matching monitor and records each handle; any exception during the construction or the start of a monitor abandons the
  start. This is written down here on its own, to be compared with \<open>start_monitors\<close>: the
  capabilities of an account in the source's order, the class of the monitor of a kind, and
  the events of the launch from a first free handle on, with whether it went through. A
  monitor whose start raises was constructed; one whose constructor raises, or whose class
  is missing from the registry, was not; in both cases nothing follows. \<open>built\<close> reads the
  handle of the monitor of a kind off such events.
\<close>

definition capabilities :: "account \<Rightarrow> kind list" where
  "capabilities acc = filter (\<lambda>k. applies k acc) [Email, Contacts, Events]"

fun monitor_class :: "state \<Rightarrow> account \<Rightarrow> kind \<Rightarrow> string option" where
  "monitor_class s acc Email = map_of (monitor_cls_for s) (provider acc)"
| "monitor_class s acc Contacts = Some ''ContactSync''"
| "monitor_class s acc Events =
     Some (if use_google_push_notifications s \<and> provider acc = ''gmail''
           then ''GoogleEventSync'' else ''EventSync'')"

fun launch :: "faults \<Rightarrow> (kind \<Rightarrow> string option) \<Rightarrow> int \<Rightarrow> kind list \<Rightarrow> nat \<Rightarrow> event list \<times> bool" where
  "launch f cls a [] n = ([], True)"
| "launch f cls a (k # ks) n =
     (case cls k of
        None \<Rightarrow> ([], False)
      | Some c \<Rightarrow>
          if ctor_fault f k a then ([], False)
          else if start_fault f k a then ([Constructed k c a n], False)
          else (case launch f cls a ks (Suc n) of
                  (evs, ok) \<Rightarrow> (Constructed k c a n # Started n # evs, ok)))"

fun built :: "kind \<Rightarrow> event list \<Rightarrow> nat option" where
  "built k [] = None"
| "built k (Constructed k' c a h # es) =
     (case built k es of Some h' \<Rightarrow> Some h' | None \<Rightarrow> if k' = k then Some h else None)"
| "built k (e # es) = built k es"

fun is_monitor :: "event \<Rightarrow> bool" where
  "is_monitor (Constructed k c a h) = True"
| "is_monitor (Started h) = True"
| "is_monitor _ = False"

text \<open>
  A step of the \<^verbatim>\<open>try\<close> block carries out the launch of a list of kinds when, from every
  state, its events, its outcome, the handle it leaves free and the handles it records are
  those of the launch.
\<close>

definition launches :: "faults \<Rightarrow> int \<Rightarrow> account \<Rightarrow> kind list \<Rightarrow> (state \<Rightarrow> (exn + unit) \<times> state) \<Rightarrow> bool" where
  "launches f a acc ks P =
     (\<forall>s. trace (snd (P s)) = trace s @ fst (launch f (monitor_class s acc) a ks (next_handle s)) \<and>
          (fst (P s) = Inr ()) = snd (launch f (monitor_class s acc) a ks (next_handle s)) \<and>
          (snd (launch f (monitor_class s acc) a ks (next_handle s)) \<longrightarrow>
             next_handle (snd (P s)) = next_handle s + length ks) \<and>
          monitor_class (snd (P s)) acc = monitor_class s acc \<and>
          (\<forall>k. monitor_of k (snd (P s)) a =
                 (case built k (fst (launch f (monitor_class s acc) a ks (next_handle s))) of
                    None \<Rightarrow> monitor_of k s a
                  | Some h \<Rightarrow> Some h)))"

text \<open>The faults under which the row of account 7 cannot be read.\<close>

definition seven_down :: faults where
  "seven_down = no_faults\<lparr>storage_fault := (\<lambda>a. a = 7)\<rparr>"

subsection \<open>The constructor and example states\<close>

text \<open>
  \<^verbatim>\<open>__init__\<close>: the running set and the three monitor dictionaries start empty. The
  process identifier, the two configuration flags and the registry are its inputs; the
  collaborators start with no rows, no assignment and an empty trace.
\<close>

definition init :: "string \<Rightarrow> bool \<Rightarrow> bool \<Rightarrow> (string \<times> string) list \<Rightarrow> state" where
  "init pid stealing push registry =
     \<lparr>process_identifier = pid, stealing_enabled = stealing,
      use_google_push_notifications = push, monitor_cls_for = registry,
      syncing_accounts = [], email_sync_monitors = Map.empty,
      contact_sync_monitors = Map.empty, event_sync_monitors = Map.empty,
      accounts = Map.empty, assignment = [], claimable = [], next_handle = 0, trace = []\<rparr>"

text \<open>
  An account with mail only and one with all three capabilities, and the process
  \<^verbatim>\<open>hostA:0\<close> of the spec's scenario.
\<close>

definition mail_only :: account where
  "mail_only =
     \<lparr>email_address = ''a@example.com'', provider = ''generic'', verbose_provider = ''generic'',
      namespace_id = 1, sync_email = True, sync_contacts = False, sync_events = False,
      provider_info = [], sync_host = None, sync_should_run = False, sync_marker = NoMarker\<rparr>"

definition full_account :: account where
  "full_account =
     \<lparr>email_address = ''b@example.com'', provider = ''gmail'', verbose_provider = ''gmail'',
      namespace_id = 2, sync_email = True, sync_contacts = True, sync_events = True,
      provider_info = [(''contacts'', True), (''events'', True)], sync_host = None,
      sync_should_run = False, sync_marker = NoMarker\<rparr>"

definition host_a :: state where
  "host_a = init ''hostA:0'' True False [(''generic'', ''GenericSyncMonitor''), (''gmail'', ''GmailSyncMonitor'')]"

text \<open>The example of the spec: accounts 1, 2 and 3 run, accounts 2, 3 and 4 are assigned here.\<close>

definition three_one :: state where
  "three_one = host_a\<lparr>syncing_accounts := [1, 2, 3],
                      assignment := [(2, ''hostA:0''), (3, ''hostA:0''), (4, ''hostA:0''), (5, ''hostB:1'')],
                      accounts := [1 \<mapsto> mail_only]\<rparr>"

text \<open>
  Account 7 running here with one email monitor; account 7 known but not running; account 8
  not running, with a contacts handle left behind.
\<close>

definition running_seven :: state where
  "running_seven =
     host_a\<lparr>syncing_accounts := [7], email_sync_monitors := [7 \<mapsto> 0],
            accounts := [7 \<mapsto> mail_only\<lparr>sync_host := Some ''hostA:0'', sync_marker := SyncStarted\<rparr>],
            assignment := [(7, ''hostA:0'')], next_handle := 1\<rparr>"

definition idle_seven :: state where
  "idle_seven = host_a\<lparr>accounts := [7 \<mapsto> mail_only]\<rparr>"

definition idle_eight :: state where
  "idle_eight = host_a\<lparr>accounts := [8 \<mapsto> full_account\<lparr>sync_should_run := True\<rparr>],
                       contact_sync_monitors := [8 \<mapsto> 3], next_handle := 4\<rparr>"

text \<open>
  Account 9 with all three capabilities, assigned here and not yet running, and the faults
  under which the start of its contacts monitor raises.
\<close>

definition idle_nine :: state where
  "idle_nine = host_a\<lparr>accounts := [9 \<mapsto> full_account], assignment := [(9, ''hostA:0'')]\<rparr>"

definition contacts_down :: faults where
  "contacts_down = no_faults\<lparr>start_fault := (\<lambda>k a. k = Contacts \<and> a = 9)\<rparr>"

text \<open>A tick in which the row of a running account has disappeared.\<close>

definition row_gone :: state where
  "row_gone = host_a\<lparr>syncing_accounts := [1, 2], accounts := [2 \<mapsto> mail_only]\<rparr>"

section \<open>Properties\<close>

subsection \<open>What each operation leaves alone\<close>

lemmas prims = emit_def write_back_def commit_def kill_def construct_monitor_def start_monitor_def

lemma start_email_frame [simp]:
  "process_identifier (snd (start_email f a acc s)) = process_identifier s"
  "stealing_enabled (snd (start_email f a acc s)) = stealing_enabled s"
  "use_google_push_notifications (snd (start_email f a acc s)) = use_google_push_notifications s"
  "monitor_cls_for (snd (start_email f a acc s)) = monitor_cls_for s"
  "syncing_accounts (snd (start_email f a acc s)) = syncing_accounts s"
  "contact_sync_monitors (snd (start_email f a acc s)) = contact_sync_monitors s"
  "event_sync_monitors (snd (start_email f a acc s)) = event_sync_monitors s"
  "accounts (snd (start_email f a acc s)) = accounts s"
  "assignment (snd (start_email f a acc s)) = assignment s"
  "claimable (snd (start_email f a acc s)) = claimable s"
  by (simp_all add: start_email_def prims split: option.splits)

lemma start_contacts_frame [simp]:
  "process_identifier (snd (start_contacts f a acc s)) = process_identifier s"
  "stealing_enabled (snd (start_contacts f a acc s)) = stealing_enabled s"
  "use_google_push_notifications (snd (start_contacts f a acc s)) = use_google_push_notifications s"
  "monitor_cls_for (snd (start_contacts f a acc s)) = monitor_cls_for s"
  "syncing_accounts (snd (start_contacts f a acc s)) = syncing_accounts s"
  "email_sync_monitors (snd (start_contacts f a acc s)) = email_sync_monitors s"
  "event_sync_monitors (snd (start_contacts f a acc s)) = event_sync_monitors s"
  "accounts (snd (start_contacts f a acc s)) = accounts s"
  "assignment (snd (start_contacts f a acc s)) = assignment s"
  "claimable (snd (start_contacts f a acc s)) = claimable s"
  by (simp_all add: start_contacts_def prims)

lemma start_events_frame [simp]:
  "process_identifier (snd (start_events f a acc s)) = process_identifier s"
  "stealing_enabled (snd (start_events f a acc s)) = stealing_enabled s"
  "use_google_push_notifications (snd (start_events f a acc s)) = use_google_push_notifications s"
  "monitor_cls_for (snd (start_events f a acc s)) = monitor_cls_for s"
  "syncing_accounts (snd (start_events f a acc s)) = syncing_accounts s"
  "email_sync_monitors (snd (start_events f a acc s)) = email_sync_monitors s"
  "contact_sync_monitors (snd (start_events f a acc s)) = contact_sync_monitors s"
  "accounts (snd (start_events f a acc s)) = accounts s"
  "assignment (snd (start_events f a acc s)) = assignment s"
  "claimable (snd (start_events f a acc s)) = claimable s"
  by (simp_all add: start_events_def prims)

lemma start_email_other [simp]:
  "b \<noteq> a \<Longrightarrow> email_sync_monitors (snd (start_email f a acc s)) b = email_sync_monitors s b"
  by (simp add: start_email_def prims split: option.splits)

lemma start_contacts_other [simp]:
  "b \<noteq> a \<Longrightarrow> contact_sync_monitors (snd (start_contacts f a acc s)) b = contact_sync_monitors s b"
  by (simp add: start_contacts_def prims)

lemma start_events_other [simp]:
  "b \<noteq> a \<Longrightarrow> event_sync_monitors (snd (start_events f a acc s)) b = event_sync_monitors s b"
  by (simp add: start_events_def prims)

lemma start_email_sel [simp]:
  assumes "\<And>k c b h. \<not> P (Constructed k c b h)" and "\<And>h. \<not> P (Started h)"
  shows "filter P (trace (snd (start_email f a acc s))) = filter P (trace s)"
  using assms by (simp add: start_email_def prims split: option.splits)

lemma start_contacts_sel [simp]:
  assumes "\<And>k c b h. \<not> P (Constructed k c b h)" and "\<And>h. \<not> P (Started h)"
  shows "filter P (trace (snd (start_contacts f a acc s))) = filter P (trace s)"
  using assms by (simp add: start_contacts_def prims)

lemma start_events_sel [simp]:
  assumes "\<And>k c b h. \<not> P (Constructed k c b h)" and "\<And>h. \<not> P (Started h)"
  shows "filter P (trace (snd (start_events f a acc s))) = filter P (trace s)"
  using assms by (simp add: start_events_def prims)

lemma start_monitors_frame [simp]:
  "process_identifier (snd (start_monitors f a acc s)) = process_identifier s"
  "stealing_enabled (snd (start_monitors f a acc s)) = stealing_enabled s"
  "use_google_push_notifications (snd (start_monitors f a acc s)) = use_google_push_notifications s"
  "monitor_cls_for (snd (start_monitors f a acc s)) = monitor_cls_for s"
  "syncing_accounts (snd (start_monitors f a acc s)) = syncing_accounts s"
  "accounts (snd (start_monitors f a acc s)) = accounts s"
  "assignment (snd (start_monitors f a acc s)) = assignment s"
  "claimable (snd (start_monitors f a acc s)) = claimable s"
  by (simp_all add: start_monitors_def case_prod_beta split: sum.splits)

lemma start_monitors_other [simp]:
  assumes "b \<noteq> a"
  shows "email_sync_monitors (snd (start_monitors f a acc s)) b = email_sync_monitors s b"
    and "contact_sync_monitors (snd (start_monitors f a acc s)) b = contact_sync_monitors s b"
    and "event_sync_monitors (snd (start_monitors f a acc s)) b = event_sync_monitors s b"
  using assms by (simp_all add: start_monitors_def case_prod_beta split: sum.splits)

lemma start_monitors_sel [simp]:
  assumes "\<And>k c b h. \<not> P (Constructed k c b h)" and "\<And>h. \<not> P (Started h)"
  shows "filter P (trace (snd (start_monitors f a acc s))) = filter P (trace s)"
  using assms by (simp add: start_monitors_def case_prod_beta split: sum.splits)

lemma start_sync_frame [simp]:
  "process_identifier (snd (start_sync f a s)) = process_identifier s"
  "stealing_enabled (snd (start_sync f a s)) = stealing_enabled s"
  "use_google_push_notifications (snd (start_sync f a s)) = use_google_push_notifications s"
  "monitor_cls_for (snd (start_sync f a s)) = monitor_cls_for s"
  "assignment (snd (start_sync f a s)) = assignment s"
  "claimable (snd (start_sync f a s)) = claimable s"
  by (simp_all add: start_sync_def session_get_def Let_def emit_def write_back_def commit_def case_prod_beta
        split: sum.splits option.splits)

lemma start_sync_other [simp]:
  assumes "b \<noteq> a"
  shows "email_sync_monitors (snd (start_sync f a s)) b = email_sync_monitors s b"
    and "contact_sync_monitors (snd (start_sync f a s)) b = contact_sync_monitors s b"
    and "event_sync_monitors (snd (start_sync f a s)) b = event_sync_monitors s b"
  using assms
  by (simp_all add: start_sync_def session_get_def Let_def emit_def write_back_def commit_def case_prod_beta
        split: sum.splits option.splits)

lemma start_sync_sel:
  assumes "\<And>k c b h. \<not> P (Constructed k c b h)" and "\<And>h. \<not> P (Started h)"
    and "\<And>l m b. \<not> P (Log l m b)"
  shows "filter P (trace (snd (start_sync f a s))) = filter P (trace s) @ filter P [CallStart a]"
  using assms
  by (simp add: start_sync_def session_get_def Let_def emit_def write_back_def commit_def case_prod_beta
        split: sum.splits option.splits)

lemma start_sync_result:
  "fst (start_sync f a s) = (if storage_fault f a then Inl OperationalError else Inr ())"
  by (simp add: start_sync_def session_get_def Let_def case_prod_beta
        split: sum.splits option.splits)

lemma start_sync_syncing:
  "syncing_accounts (snd (start_sync f a s)) = syncing_accounts s \<or>
   syncing_accounts (snd (start_sync f a s)) = a # syncing_accounts s \<and> a \<notin> set (syncing_accounts s)"
  by (simp add: start_sync_def session_get_def Let_def emit_def write_back_def commit_def case_prod_beta
        split: sum.splits option.splits)


lemma stop_monitors_frame [simp]:
  "process_identifier (stop_monitors a s) = process_identifier s"
  "stealing_enabled (stop_monitors a s) = stealing_enabled s"
  "use_google_push_notifications (stop_monitors a s) = use_google_push_notifications s"
  "monitor_cls_for (stop_monitors a s) = monitor_cls_for s"
  "accounts (stop_monitors a s) = accounts s"
  "assignment (stop_monitors a s) = assignment s"
  "claimable (stop_monitors a s) = claimable s"
  "next_handle (stop_monitors a s) = next_handle s"
  "syncing_accounts (stop_monitors a s) = removeAll a (syncing_accounts s)"
  by (simp_all add: stop_monitors_def stop_email_def stop_contacts_def stop_events_def prims
        split: option.splits)

lemma stop_monitors_maps [simp]:
  "email_sync_monitors (stop_monitors a s) = (email_sync_monitors s)(a := None)"
  "contact_sync_monitors (stop_monitors a s) = (contact_sync_monitors s)(a := None)"
  "event_sync_monitors (stop_monitors a s) = (event_sync_monitors s)(a := None)"
  by (auto simp add: stop_monitors_def stop_email_def stop_contacts_def stop_events_def prims
        split: option.splits)

lemma stop_monitors_sel [simp]:
  assumes "\<And>h. \<not> P (Killed h)"
  shows "filter P (trace (stop_monitors a s)) = filter P (trace s)"
  using assms
  by (simp add: stop_monitors_def stop_email_def stop_contacts_def stop_events_def prims
        split: option.splits)

lemma stop_sync_frame [simp]:
  "process_identifier (snd (stop_sync f a s)) = process_identifier s"
  "stealing_enabled (snd (stop_sync f a s)) = stealing_enabled s"
  "use_google_push_notifications (snd (stop_sync f a s)) = use_google_push_notifications s"
  "monitor_cls_for (snd (stop_sync f a s)) = monitor_cls_for s"
  "claimable (snd (stop_sync f a s)) = claimable s"
  "next_handle (snd (stop_sync f a s)) = next_handle s"
  "syncing_accounts (snd (stop_sync f a s)) = removeAll a (syncing_accounts s)"
  "email_sync_monitors (snd (stop_sync f a s)) = (email_sync_monitors s)(a := None)"
  "contact_sync_monitors (snd (stop_sync f a s)) = (contact_sync_monitors s)(a := None)"
  "event_sync_monitors (snd (stop_sync f a s)) = (event_sync_monitors s)(a := None)"
  by (simp_all add: stop_sync_def session_get_def sync_stopped_def unassign_def Let_def
        emit_def write_back_def commit_def split: option.splits)

lemma stop_sync_result:
  "fst (stop_sync f a s) =
     (if storage_fault f a then Inl OperationalError
      else case accounts s a of
             None \<Rightarrow> Inl AttributeError
           | Some acc \<Rightarrow> Inr ((a, process_identifier s) \<in> set (assignment s)))"
  by (simp add: stop_sync_def session_get_def sync_stopped_def unassign_def Let_def
        emit_def write_back_def commit_def split: option.splits)

lemma stop_sync_sel:
  assumes "\<And>h. \<not> P (Killed h)" and "\<And>b. \<not> P (ClearHeartbeat b)"
    and "\<And>b p. \<not> P (Unassign b p)" and "\<And>l m b. \<not> P (Log l m b)"
  shows "filter P (trace (snd (stop_sync f a s))) = filter P (trace s) @ filter P [CallStop a]"
  using assms
  by (simp add: stop_sync_def session_get_def sync_stopped_def unassign_def Let_def
        emit_def write_back_def commit_def split: option.splits)

lemma stop_sync_rows:
  "(accounts (snd (stop_sync f a s)) b = None) = (accounts s b = None)"
  by (simp add: stop_sync_def session_get_def sync_stopped_def unassign_def Let_def
        emit_def write_back_def commit_def split: option.splits)

lemma start_sync_rows:
  "(accounts (snd (start_sync f a s)) b = None) = (accounts s b = None)"
  by (simp add: start_sync_def session_get_def Let_def emit_def write_back_def commit_def case_prod_beta
        split: sum.splits option.splits)


subsection \<open>The two loops of the converge phase\<close>

lemma start_loop_step:
  "start_loop f (a # rest) s =
     (if a \<in> set (syncing_accounts s) then start_loop f rest s
      else start_loop f rest
             (if storage_fault f a
              then emit LogUncaught
                     (emit (Log Error ''Database error starting account sync'' None)
                        (snd (start_sync f a s)))
              else snd (start_sync f a s)))"
  using start_sync_result [of f a s]
  by (cases "start_sync f a s") (auto split: sum.splits if_splits)

lemma stop_loop_step:
  "stop_loop f (a # rest) s =
     (let s1 = snd (stop_sync f a (emit (Log Info ''sync service stopping sync'' (Some a)) s))
      in if storage_fault f a
         then stop_loop f rest
                (emit LogUncaught (emit (Log Error ''Database error stopping account sync'' None) s1))
         else if accounts s a = None then (Inl AttributeError, s1)
         else stop_loop f rest s1)"
  using stop_sync_result [of f a "emit (Log Info ''sync service stopping sync'' (Some a)) s"]
  by (cases "stop_sync f a (emit (Log Info ''sync service stopping sync'' (Some a)) s)")
     (auto simp: emit_def Let_def split: sum.splits if_splits option.splits)

lemma start_loop_result: "fst (start_loop f xs s) = Inr ()"
  by (induction xs arbitrary: s) (simp_all add: start_loop_step del: start_loop.simps(2))

lemma start_loop_frame [simp]:
  "process_identifier (snd (start_loop f xs s)) = process_identifier s"
  "stealing_enabled (snd (start_loop f xs s)) = stealing_enabled s"
  "use_google_push_notifications (snd (start_loop f xs s)) = use_google_push_notifications s"
  "monitor_cls_for (snd (start_loop f xs s)) = monitor_cls_for s"
  "assignment (snd (start_loop f xs s)) = assignment s"
  "claimable (snd (start_loop f xs s)) = claimable s"
  by (induction xs arbitrary: s; simp add: start_loop_step emit_def del: start_loop.simps(2))+

lemma start_loop_rows:
  "(accounts (snd (start_loop f xs s)) b = None) = (accounts s b = None)"
  by (induction xs arbitrary: s)
     (simp_all add: start_loop_step emit_def start_sync_rows del: start_loop.simps(2))

lemma start_loop_sel:
  assumes "\<And>k c b h. \<not> P (Constructed k c b h)" and "\<And>h. \<not> P (Started h)"
    and "\<And>l m b. \<not> P (Log l m b)" and "\<not> P LogUncaught" and "\<And>b. \<not> P (CallStart b)"
  shows "filter P (trace (snd (start_loop f xs s))) = filter P (trace s)"
  using assms
  by (induction xs arbitrary: s)
     (simp_all add: start_loop_step emit_def start_sync_sel del: start_loop.simps(2))

lemma start_loop_other:
  assumes "b \<notin> set xs"
  shows "email_sync_monitors (snd (start_loop f xs s)) b = email_sync_monitors s b"
    and "contact_sync_monitors (snd (start_loop f xs s)) b = contact_sync_monitors s b"
    and "event_sync_monitors (snd (start_loop f xs s)) b = event_sync_monitors s b"
  using assms
  by (induction xs arbitrary: s; simp add: start_loop_step emit_def del: start_loop.simps(2))+

lemma start_sync_keeps:
  "filter (\<lambda>b. b \<noteq> a) (syncing_accounts (snd (start_sync f a s))) =
   filter (\<lambda>b. b \<noteq> a) (syncing_accounts s)"
  using start_sync_syncing [of f a s] by auto

lemma start_sync_mem:
  "b \<noteq> a \<Longrightarrow> (b \<in> set (syncing_accounts (snd (start_sync f a s)))) = (b \<in> set (syncing_accounts s))"
  using start_sync_syncing [of f a s] by auto

lemma start_loop_mem:
  "b \<notin> set xs \<Longrightarrow>
   (b \<in> set (syncing_accounts (snd (start_loop f xs s)))) = (b \<in> set (syncing_accounts s))"
  by (induction xs arbitrary: s)
     (simp_all add: start_loop_step emit_def start_sync_mem del: start_loop.simps(2))

lemma start_sync_keeps2:
  "filter (\<lambda>b. Q b \<and> b \<noteq> a) (syncing_accounts (snd (start_sync f a s))) =
   filter (\<lambda>b. Q b \<and> b \<noteq> a) (syncing_accounts s)"
  using start_sync_syncing [of f a s] by auto

lemma filter_not_in_Cons:
  "filter (\<lambda>b. b \<notin> set (a # xs)) ys = filter (\<lambda>b. b \<noteq> a) (filter (\<lambda>b. b \<notin> set xs) ys)"
  by (induction ys) auto

lemma start_loop_keeps:
  "filter (\<lambda>b. b \<notin> set xs) (syncing_accounts (snd (start_loop f xs s))) =
   filter (\<lambda>b. b \<notin> set xs) (syncing_accounts s)"
proof (induction xs arbitrary: s)
  case Nil
  show ?case by simp
next
  case (Cons a xs)
  show ?case
    unfolding filter_not_in_Cons start_loop_step
    by (simp only: Cons.IH if_distrib [of snd] if_distrib [of syncing_accounts]
          split: if_splits) (simp add: emit_def start_sync_keeps2)
qed

lemma start_loop_calls:
  assumes "distinct xs"
  shows "filter is_call (trace (snd (start_loop f xs s))) =
         filter is_call (trace s) @ map CallStart (filter (\<lambda>a. a \<notin> set (syncing_accounts s)) xs)"
  using assms
proof (induction xs arbitrary: s)
  case Nil
  show ?case by simp
next
  case (Cons a xs)
  have same: "filter (\<lambda>b. b \<notin> set (syncing_accounts (snd (start_sync f a s)))) xs =
              filter (\<lambda>b. b \<notin> set (syncing_accounts s)) xs"
  proof (rule filter_cong [OF refl])
    fix b assume "b \<in> set xs"
    with Cons.prems have "b \<noteq> a" by auto
    then show "(b \<notin> set (syncing_accounts (snd (start_sync f a s)))) =
               (b \<notin> set (syncing_accounts s))"
      by (simp add: start_sync_mem)
  qed
  from Cons show ?case
    by (simp add: start_loop_step emit_def start_sync_sel same del: start_loop.simps(2))
qed

subsection \<open>The tick\<close>

lemma acquire_frame [simp]:
  "process_identifier (acquire u s) = process_identifier s"
  "stealing_enabled (acquire u s) = stealing_enabled s"
  "use_google_push_notifications (acquire u s) = use_google_push_notifications s"
  "monitor_cls_for (acquire u s) = monitor_cls_for s"
  "syncing_accounts (acquire u s) = syncing_accounts s"
  "email_sync_monitors (acquire u s) = email_sync_monitors s"
  "contact_sync_monitors (acquire u s) = contact_sync_monitors s"
  "event_sync_monitors (acquire u s) = event_sync_monitors s"
  "accounts (acquire u s) = accounts s"
  "next_handle (acquire u s) = next_handle s"
  by (simp_all add: acquire_def claim_next_def emit_def split: list.splits)

lemma acquire_sel:
  assumes "\<And>l m b. \<not> P (Log l m b)"
  shows "filter P (trace (acquire u s)) =
         filter P (trace s) @
         (if stealing_enabled s \<and> \<not> overloaded_cpus u
          then filter P [ClaimNext (process_identifier s)] else [])"
  using assms by (simp add: acquire_def claim_next_def emit_def split: list.splits)

lemma stop_loop_sel:
  assumes "\<And>h. \<not> P (Killed h)" and "\<And>b. \<not> P (ClearHeartbeat b)"
    and "\<And>b p. \<not> P (Unassign b p)" and "\<And>l m b. \<not> P (Log l m b)"
    and "\<not> P LogUncaught" and "\<And>b. \<not> P (CallStop b)"
  shows "filter P (trace (snd (stop_loop f xs s))) = filter P (trace s)"
  using assms
  by (induction xs arbitrary: s)
     (simp_all add: stop_loop_step Let_def emit_def stop_sync_sel del: stop_loop.simps(2))

lemma poll_sel:
  assumes "\<And>k c b h. \<not> P (Constructed k c b h)" and "\<And>h. \<not> P (Started h)"
    and "\<And>h. \<not> P (Killed h)" and "\<And>b. \<not> P (ClearHeartbeat b)"
    and "\<And>b p. \<not> P (Unassign b p)" and "\<And>l m b. \<not> P (Log l m b)"
    and "\<not> P LogUncaught" and "\<And>b. \<not> P (CallStop b)" and "\<And>b. \<not> P (CallStart b)"
    and "\<And>n. \<not> P (Gauge n)"
  shows "filter P (trace (snd (poll f u s))) =
         filter P (trace s) @
         (if stealing_enabled s \<and> \<not> overloaded_cpus u
          then filter P [ClaimNext (process_identifier s)] else [])"
proof -
  have r: "fst (start_loop f xs t) = Inr ()" for xs t by (rule start_loop_result)
  show ?thesis
    using assms
    by (simp add: poll_def Let_def case_prod_beta r stop_loop_sel start_loop_sel acquire_sel emit_def)
qed

lemma overloaded_cpus_iff: "overloaded_cpus u = (\<forall>x\<in>set u. x > 90)"
  by (simp add: overloaded_cpus_def list_all_iff)

lemma stop_sync_rows_emit:
  "(accounts (snd (stop_sync f a (emit e s))) b = None) = (accounts s b = None)"
  by (simp add: stop_sync_rows) (simp add: emit_def)

lemma stop_loop_ok:
  assumes "\<forall>a\<in>set ys. storage_fault f a \<or> accounts s a \<noteq> None"
  shows "fst (stop_loop f ys s) = Inr ()"
  using assms
proof (induction ys arbitrary: s)
  case Nil
  show ?case by simp
next
  case (Cons a ys)
  let ?s1 = "snd (stop_sync f a (emit (Log Info ''sync service stopping sync'' (Some a)) s))"
  have rows: "\<forall>b\<in>set ys. storage_fault f b \<or> accounts ?s1 b \<noteq> None"
    using Cons.prems by (simp add: stop_sync_rows_emit)
  have rows': "\<forall>b\<in>set ys. storage_fault f b \<or>
      accounts (emit LogUncaught (emit (Log Error ''Database error stopping account sync'' None) ?s1)) b \<noteq> None"
    using rows by (simp add: emit_def)
  from Cons.prems Cons.IH [OF rows] Cons.IH [OF rows'] show ?case
    by (auto simp add: stop_loop_step Let_def simp del: stop_loop.simps(2))
qed

lemma stop_loop_calls:
  assumes "\<forall>a\<in>set ys. storage_fault f a \<or> accounts s a \<noteq> None"
  shows "filter is_call (trace (snd (stop_loop f ys s))) = filter is_call (trace s) @ map CallStop ys"
  using assms
proof (induction ys arbitrary: s)
  case Nil
  show ?case by simp
next
  case (Cons a ys)
  let ?s1 = "snd (stop_sync f a (emit (Log Info ''sync service stopping sync'' (Some a)) s))"
  have rows: "\<forall>b\<in>set ys. storage_fault f b \<or> accounts ?s1 b \<noteq> None"
    using Cons.prems by (simp add: stop_sync_rows_emit)
  have rows': "\<forall>b\<in>set ys. storage_fault f b \<or>
      accounts (emit LogUncaught (emit (Log Error ''Database error stopping account sync'' None) ?s1)) b \<noteq> None"
    using rows by (simp add: emit_def)
  from Cons.prems Cons.IH [OF rows] Cons.IH [OF rows'] show ?case
    by (auto simp add: stop_loop_step Let_def stop_sync_sel emit_def simp del: stop_loop.simps(2))
qed

lemma distinct_accounts_to_sync [simp]: "distinct (accounts_to_sync s)"
  by (simp add: accounts_to_sync_def)

lemma poll_result:
  assumes "\<forall>a\<in>set (syncing_accounts s) - set (accounts_to_sync (acquire u s)).
             storage_fault f a \<or> accounts s a \<noteq> None"
  shows "fst (poll f u s) = Inr ()"
proof -
  let ?D = "accounts_to_sync (acquire u s)"
  let ?s3 = "snd (start_loop f ?D (emit (Gauge (length ?D)) (acquire u s)))"
  have keep: "stop_accounts ?D ?s3 = filter (\<lambda>a. a \<notin> set ?D) (syncing_accounts s)"
    by (simp add: stop_accounts_def start_loop_keeps) (simp add: emit_def)
  have rows: "\<forall>a\<in>set (stop_accounts ?D ?s3). storage_fault f a \<or> accounts ?s3 a \<noteq> None"
    unfolding keep using assms by (simp add: start_loop_rows) (simp add: emit_def)
  show ?thesis
    using stop_loop_ok [OF rows, unfolded keep]
    by (simp add: poll_def Let_def case_prod_beta start_loop_result keep)
qed

lemma poll_calls:
  assumes "\<forall>a\<in>set (syncing_accounts s) - set (accounts_to_sync (acquire u s)).
             storage_fault f a \<or> accounts s a \<noteq> None"
  shows "filter is_call (trace (snd (poll f u s))) =
         filter is_call (trace s) @
         map CallStart (filter (\<lambda>a. a \<notin> set (syncing_accounts s)) (accounts_to_sync (acquire u s))) @
         map CallStop (filter (\<lambda>a. a \<notin> set (accounts_to_sync (acquire u s))) (syncing_accounts s))"
proof -
  let ?D = "accounts_to_sync (acquire u s)"
  let ?s3 = "snd (start_loop f ?D (emit (Gauge (length ?D)) (acquire u s)))"
  have keep: "stop_accounts ?D ?s3 = filter (\<lambda>a. a \<notin> set ?D) (syncing_accounts s)"
    by (simp add: stop_accounts_def start_loop_keeps) (simp add: emit_def)
  have rows: "\<forall>a\<in>set (stop_accounts ?D ?s3). storage_fault f a \<or> accounts ?s3 a \<noteq> None"
    unfolding keep using assms by (simp add: start_loop_rows) (simp add: emit_def)
  have starts: "filter is_call (trace ?s3) = filter is_call (trace s) @
                  map CallStart (filter (\<lambda>a. a \<notin> set (syncing_accounts s)) ?D)"
    by (simp add: start_loop_calls) (simp add: emit_def acquire_sel)
  show ?thesis
    using stop_loop_calls [OF rows, unfolded keep]
    by (simp add: poll_def Let_def case_prod_beta start_loop_result starts keep)
qed

lemma three_one_desired: "accounts_to_sync (acquire [10] three_one) = [2, 3, 4]"
  by (simp add: accounts_to_sync_def assigned_def acquire_def claim_next_def emit_def
        overloaded_cpus_def three_one_def host_a_def init_def)

subsection \<open>What stop_sync does\<close>

lemma stop_monitors_kills:
  "filter is_kill (trace (stop_monitors a s)) = filter is_kill (trace s) @ map Killed (recorded s a)"
  by (simp add: stop_monitors_def stop_email_def stop_contacts_def stop_events_def prims
        recorded_def List.map_filter_simps split: option.splits)

lemma recorded_trace [simp]: "recorded (s\<lparr>trace := t\<rparr>) a = recorded s a"
  by (simp add: recorded_def)

lemma stop_sync_kills:
  "filter is_kill (trace (snd (stop_sync f a s))) =
   filter is_kill (trace s) @ map Killed (recorded s a)"
  by (simp add: stop_sync_def session_get_def sync_stopped_def unassign_def Let_def
        emit_def write_back_def commit_def stop_monitors_kills split: option.splits)

lemma stop_sync_releases:
  assumes "accounts s a = Some acc" and "\<not> storage_fault f a"
  shows "filter is_release (trace (snd (stop_sync f a s))) =
         filter is_release (trace s) @
         (if sync_should_run acc then [] else [ClearHeartbeat a]) @
         [Unassign a (process_identifier s)]"
  using assms
  by (simp add: stop_sync_def session_get_def sync_stopped_def unassign_def Let_def
        emit_def write_back_def commit_def)

lemma stop_sync_marker:
  assumes "accounts s a = Some acc" and "\<not> storage_fault f a"
  shows "accounts (snd (stop_sync f a s)) a = Some (acc\<lparr>sync_marker := SyncStopped\<rparr>)"
  using assms
  by (simp add: stop_sync_def session_get_def sync_stopped_def unassign_def Let_def
        emit_def write_back_def commit_def)

lemma stop_sync_released:
  assumes "accounts s a = Some acc" and "\<not> storage_fault f a"
  shows "a \<notin> set (accounts_to_sync (snd (stop_sync f a s)))"
  using assms
  by (auto simp add: stop_sync_def session_get_def sync_stopped_def unassign_def Let_def
        emit_def write_back_def commit_def accounts_to_sync_def assigned_def)

subsection \<open>The try block of start_sync\<close>

lemma applies_sync_host [simp]: "applies k (acc\<lparr>sync_host := h\<rparr>) = applies k acc"
  by (cases k) (simp_all add: info_get_def)

lemma kind_all: "(\<forall>k. P k) = (P Email \<and> P Contacts \<and> P Events)"
  by (metis kind.exhaust)

lemma kind_ex: "(\<exists>k. P k) = (P Email \<or> P Contacts \<or> P Events)"
  by (metis kind.exhaust)

lemma start_email_fst:
  "fst (start_email f a acc s) =
     (if sync_email acc then
        (case map_of (monitor_cls_for s) (provider acc) of
           None \<Rightarrow> Inl KeyError
         | Some cls \<Rightarrow> if raises f Email a then Inl MonitorError else Inr ())
      else Inr ())"
  by (simp add: start_email_def raises_def prims split: option.splits)

lemma start_contacts_fst:
  "fst (start_contacts f a acc s) =
     (if applies Contacts acc \<and> raises f Contacts a then Inl MonitorError else Inr ())"
  by (simp add: start_contacts_def raises_def prims)

lemma start_events_fst:
  "fst (start_events f a acc s) =
     (if applies Events acc \<and> raises f Events a then Inl MonitorError else Inr ())"
  by (simp add: start_events_def raises_def prims)

lemma start_monitors_fst:
  "fst (start_monitors f a acc s) =
     (case fst (start_email f a acc s) of
        Inl e \<Rightarrow> Inl e
      | Inr u \<Rightarrow>
          if applies Contacts acc \<and> raises f Contacts a then Inl MonitorError
          else if applies Events acc \<and> raises f Events a then Inl MonitorError
          else Inr ())"
  by (simp add: start_monitors_def case_prod_beta start_contacts_fst start_events_fst
        split: sum.splits)

lemma start_monitors_ok:
  assumes "\<forall>k. applies k acc \<longrightarrow> \<not> raises f k a"
    and "sync_email acc \<longrightarrow> map_of (monitor_cls_for s) (provider acc) \<noteq> None"
  shows "fst (start_monitors f a acc s) = Inr ()"
  using assms by (auto simp add: start_monitors_fst start_email_fst kind_all)

lemma start_monitors_fail:
  assumes "\<exists>k. applies k acc \<and> raises f k a"
  shows "\<exists>e. fst (start_monitors f a acc s) = Inl e"
  using assms
  by (auto simp add: start_monitors_fst start_email_fst kind_ex split: option.splits sum.splits)

text \<open>The two ways through the \<^verbatim>\<open>try\<close> block of \<^verbatim>\<open>start_sync\<close>.\<close>

lemma start_sync_abandoned:
  assumes "accounts s a = Some acc" and "a \<notin> set (syncing_accounts s)"
    and "\<not> storage_fault f a"
    and "fst (start_monitors f a (acc\<lparr>sync_host := Some (process_identifier s)\<rparr>)
               (emit (Log Info ''starting sync'' (Some a)) (emit (CallStart a) s))) = Inl e"
  shows "start_sync f a s =
           (Inr (), write_back a (acc\<lparr>sync_host := Some (process_identifier s)\<rparr>)
              (emit (Log Error ''Error starting sync'' (Some a))
                 (snd (start_monitors f a (acc\<lparr>sync_host := Some (process_identifier s)\<rparr>)
                    (emit (Log Info ''starting sync'' (Some a)) (emit (CallStart a) s))))))"
  using assms
  by (simp add: start_sync_def session_get_def Let_def case_prod_beta emit_def)

lemma start_sync_completed:
  assumes "accounts s a = Some acc" and "a \<notin> set (syncing_accounts s)"
    and "\<not> storage_fault f a"
    and "fst (start_monitors f a (acc\<lparr>sync_host := Some (process_identifier s)\<rparr>)
               (emit (Log Info ''starting sync'' (Some a)) (emit (CallStart a) s))) = Inr ()"
  shows "start_sync f a s =
           (Inr (),
            if commit_fault f a
            then emit (Log Error ''Error starting sync'' (Some a))
                   ((snd (start_monitors f a (acc\<lparr>sync_host := Some (process_identifier s)\<rparr>)
                      (emit (Log Info ''starting sync'' (Some a)) (emit (CallStart a) s))))
                    \<lparr>syncing_accounts := a # syncing_accounts s\<rparr>)
            else emit (Log Info ''Sync started'' (Some a))
                   (write_back a (sync_started (acc\<lparr>sync_host := Some (process_identifier s)\<rparr>))
                      ((snd (start_monitors f a (acc\<lparr>sync_host := Some (process_identifier s)\<rparr>)
                          (emit (Log Info ''starting sync'' (Some a)) (emit (CallStart a) s))))
                       \<lparr>syncing_accounts := a # syncing_accounts s\<rparr>)))"
  using assms
  by (simp add: start_sync_def session_get_def Let_def case_prod_beta emit_def commit_def)

lemma start_sync_already:
  assumes "accounts s a = Some acc" and "a \<in> set (syncing_accounts s)"
    and "\<not> storage_fault f a"
  shows "start_sync f a s =
           (Inr (), s\<lparr>trace := trace s @ [CallStart a, Log Info ''starting sync'' (Some a),
                                          Log Info ''sync already started'' (Some a)]\<rparr>)"
  using assms
  by (simp add: start_sync_def session_get_def Let_def emit_def write_back_def commit_def map_upd_triv)

lemma start_monitors_raise:
  assumes "(sync_email acc \<and> map_of (monitor_cls_for s) (provider acc) = None) \<or>
           (\<exists>k. applies k acc \<and> raises f k a)"
  shows "\<exists>e. fst (start_monitors f a acc s) = Inl e"
  using assms
  by (auto simp add: start_monitors_fst start_email_fst kind_ex split: option.splits sum.splits)

lemma start_loop_starts:
  assumes "distinct xs"
    and "\<And>k c b h. \<not> P (Constructed k c b h)" and "\<And>h. \<not> P (Started h)"
    and "\<And>l m b. \<not> P (Log l m b)" and "\<not> P LogUncaught" and "\<And>b. P (CallStart b)"
  shows "filter P (trace (snd (start_loop f xs s))) =
         filter P (trace s) @ map CallStart (filter (\<lambda>a. a \<notin> set (syncing_accounts s)) xs)"
  using assms(1)
proof (induction xs arbitrary: s)
  case Nil
  show ?case by simp
next
  case (Cons a xs)
  have same: "filter (\<lambda>b. b \<notin> set (syncing_accounts (snd (start_sync f a s)))) xs =
              filter (\<lambda>b. b \<notin> set (syncing_accounts s)) xs"
  proof (rule filter_cong [OF refl])
    fix b assume "b \<in> set xs"
    with Cons.prems have "b \<noteq> a" by auto
    then show "(b \<notin> set (syncing_accounts (snd (start_sync f a s)))) =
               (b \<notin> set (syncing_accounts s))"
      by (simp add: start_sync_mem)
  qed
  from Cons assms(2-) show ?case
    by (simp add: start_loop_step emit_def start_sync_sel same del: start_loop.simps(2))
qed

lemma poll_starts:
  "filter is_start_call (trace (snd (poll f u s))) =
   filter is_start_call (trace s) @
   map CallStart (filter (\<lambda>a. a \<notin> set (syncing_accounts s)) (accounts_to_sync (acquire u s)))"
  by (simp add: poll_def Let_def case_prod_beta start_loop_result stop_loop_sel
        start_loop_starts emit_def acquire_sel)

lemma acquire_keeps_assigned:
  assumes "(a, process_identifier s) \<in> set (assignment s)"
  shows "a \<in> set (accounts_to_sync (acquire u s))"
proof -
  have "(a, process_identifier s) \<in> set (assignment (acquire u s))"
    using assms
    by (auto simp add: acquire_def claim_next_def emit_def split: list.splits)
  then show ?thesis
    by (force simp add: accounts_to_sync_def assigned_def)
qed

lemma start_email_done:
  assumes "sync_email acc" and "map_of (monitor_cls_for s) (provider acc) = Some cls"
    and "\<not> raises f Email a"
  shows "start_email f a acc s =
           (Inr (), s\<lparr>next_handle := Suc (next_handle s),
                      email_sync_monitors := (email_sync_monitors s)(a \<mapsto> next_handle s),
                      trace := trace s @ [Constructed Email cls a (next_handle s),
                                          Started (next_handle s)]\<rparr>)"
  using assms by (simp add: start_email_def raises_def prims)

lemma start_contacts_grows:
  "\<exists>post. trace (snd (start_contacts f a acc s)) = trace s @ post"
  by (simp add: start_contacts_def prims)

lemma start_events_grows:
  "\<exists>post. trace (snd (start_events f a acc s)) = trace s @ post"
  by (simp add: start_events_def prims)

lemma start_contacts_handle: "next_handle s \<le> next_handle (snd (start_contacts f a acc s))"
  by (simp add: start_contacts_def prims)

lemma start_events_handle: "next_handle s \<le> next_handle (snd (start_events f a acc s))"
  by (simp add: start_events_def prims)

lemma start_monitors_email:
  assumes "sync_email acc" and "map_of (monitor_cls_for s) (provider acc) = Some cls"
    and "\<not> raises f Email a"
  shows "email_sync_monitors (snd (start_monitors f a acc s)) a = Some (next_handle s)"
    and "next_handle s < next_handle (snd (start_monitors f a acc s))"
    and "\<exists>post. trace (snd (start_monitors f a acc s)) =
           trace s @ [Constructed Email cls a (next_handle s), Started (next_handle s)] @ post"
proof -
  let ?s1 = "s\<lparr>next_handle := Suc (next_handle s),
               email_sync_monitors := (email_sync_monitors s)(a \<mapsto> next_handle s),
               trace := trace s @ [Constructed Email cls a (next_handle s),
                                   Started (next_handle s)]\<rparr>"
  let ?s2 = "snd (start_contacts f a acc ?s1)"
  note e = start_email_done [OF assms]
  have shape: "snd (start_monitors f a acc s) = ?s2 \<or>
               snd (start_monitors f a acc s) = snd (start_events f a acc ?s2)"
    by (simp add: start_monitors_def e case_prod_beta split: sum.splits)
  have m2: "email_sync_monitors ?s2 a = Some (next_handle s)" by simp
  have m3: "email_sync_monitors (snd (start_events f a acc ?s2)) a = Some (next_handle s)" by simp
  from shape m2 m3 show "email_sync_monitors (snd (start_monitors f a acc s)) a = Some (next_handle s)"
    by auto
  have h2: "next_handle s < next_handle ?s2"
    using start_contacts_handle [of ?s1 f a acc] by simp
  have h3: "next_handle s < next_handle (snd (start_events f a acc ?s2))"
    using h2 start_events_handle [of ?s2 f a acc] by simp
  from shape h2 h3 show "next_handle s < next_handle (snd (start_monitors f a acc s))"
    by auto
  obtain p2 where p2: "trace ?s2 = trace ?s1 @ p2"
    using start_contacts_grows [of f a acc ?s1] by blast
  obtain p3 where p3: "trace (snd (start_events f a acc ?s2)) = trace ?s2 @ p3"
    using start_events_grows [of f a acc ?s2] by blast
  from shape p2 p3 show "\<exists>post. trace (snd (start_monitors f a acc s)) =
           trace s @ [Constructed Email cls a (next_handle s), Started (next_handle s)] @ post"
    by auto
qed

lemma start_sync_shape:
  assumes "accounts s a = Some acc" and "a \<notin> set (syncing_accounts s)"
    and "\<not> storage_fault f a"
  shows "\<exists>t m acc'. snd (start_sync f a s) =
           (snd (start_monitors f a (acc\<lparr>sync_host := Some (process_identifier s)\<rparr>)
              (emit (Log Info ''starting sync'' (Some a)) (emit (CallStart a) s))))
           \<lparr>syncing_accounts := m,
            accounts := (accounts s)(a \<mapsto> acc'),
            trace := trace (snd (start_monitors f a (acc\<lparr>sync_host := Some (process_identifier s)\<rparr>)
              (emit (Log Info ''starting sync'' (Some a)) (emit (CallStart a) s)))) @ [t]\<rparr> \<and>
           sync_email acc' = sync_email acc \<and> provider acc' = provider acc"
proof (cases "fst (start_monitors f a (acc\<lparr>sync_host := Some (process_identifier s)\<rparr>)
               (emit (Log Info ''starting sync'' (Some a)) (emit (CallStart a) s)))")
  case (Inl e)
  show ?thesis
    by (simp add: start_sync_abandoned [OF assms Inl] write_back_def commit_def emit_def)
       (rule exI [of _ "Log Error ''Error starting sync'' (Some a)"],
        rule exI [of _ "syncing_accounts s"],
        rule exI [of _ "acc\<lparr>sync_host := Some (process_identifier s)\<rparr>"], simp)
next
  case (Inr u)
  then have ok: "fst (start_monitors f a (acc\<lparr>sync_host := Some (process_identifier s)\<rparr>)
               (emit (Log Info ''starting sync'' (Some a)) (emit (CallStart a) s))) = Inr ()"
    by simp
  show ?thesis
  proof (cases "commit_fault f a")
    case True
    then show ?thesis
      using assms(1)
      by (simp add: start_sync_completed [OF assms ok] emit_def)
         (rule exI [of _ "Log Error ''Error starting sync'' (Some a)"],
          rule exI [of _ "a # syncing_accounts s"], rule exI [of _ acc],
          simp add: map_upd_triv)
  next
    case False
    then show ?thesis
      by (simp add: start_sync_completed [OF assms ok] write_back_def emit_def sync_started_def)
         (rule exI [of _ "Log Info ''Sync started'' (Some a)"],
          rule exI [of _ "a # syncing_accounts s"],
          rule exI [of _ "acc\<lparr>sync_host := Some (process_identifier s), sync_marker := SyncStarted\<rparr>"],
          simp)
  qed
qed

lemma start_sync_email:
  assumes "accounts s a = Some acc" and "a \<notin> set (syncing_accounts s)"
    and "\<not> storage_fault f a"
    and "sync_email acc" and "map_of (monitor_cls_for s) (provider acc) = Some cls"
    and "\<not> raises f Email a"
  shows "email_sync_monitors (snd (start_sync f a s)) a = Some (next_handle s)"
    and "next_handle s < next_handle (snd (start_sync f a s))"
    and "\<exists>post. trace (snd (start_sync f a s)) =
           trace s @ [CallStart a, Log Info ''starting sync'' (Some a),
                      Constructed Email cls a (next_handle s), Started (next_handle s)] @ post"
    and "\<exists>acc'. accounts (snd (start_sync f a s)) a = Some acc' \<and> sync_email acc' \<and>
                 provider acc' = provider acc"
proof -
  let ?acc1 = "acc\<lparr>sync_host := Some (process_identifier s)\<rparr>"
  let ?s0 = "emit (Log Info ''starting sync'' (Some a)) (emit (CallStart a) s)"
  let ?sm = "snd (start_monitors f a ?acc1 ?s0)"
  have pre: "sync_email ?acc1" "map_of (monitor_cls_for ?s0) (provider ?acc1) = Some cls"
    using assms(4,5) by (simp_all add: emit_def)
  note m = start_monitors_email [OF pre assms(6)]
  obtain t m' acc' where sh: "snd (start_sync f a s) =
      ?sm\<lparr>syncing_accounts := m', accounts := (accounts s)(a \<mapsto> acc'), trace := trace ?sm @ [t]\<rparr>"
      and same: "sync_email acc' = sync_email acc" "provider acc' = provider acc"
    using start_sync_shape [OF assms(1-3)] by blast
  have nh: "next_handle ?s0 = next_handle s" by (simp add: emit_def)
  show "email_sync_monitors (snd (start_sync f a s)) a = Some (next_handle s)"
    using m(1) by (simp add: sh nh)
  show "next_handle s < next_handle (snd (start_sync f a s))"
    using m(2) by (simp add: sh nh)
  obtain post where "trace ?sm = trace ?s0 @ [Constructed Email cls a (next_handle ?s0),
                                               Started (next_handle ?s0)] @ post"
    using m(3) by blast
  then have "trace (snd (start_sync f a s)) =
           trace s @ [CallStart a, Log Info ''starting sync'' (Some a),
                      Constructed Email cls a (next_handle s), Started (next_handle s)] @ (post @ [t])"
    by (simp add: sh nh) (simp add: emit_def)
  then show "\<exists>post. trace (snd (start_sync f a s)) =
           trace s @ [CallStart a, Log Info ''starting sync'' (Some a),
                      Constructed Email cls a (next_handle s), Started (next_handle s)] @ post"
    by blast
  show "\<exists>acc'. accounts (snd (start_sync f a s)) a = Some acc' \<and> sync_email acc' \<and>
                 provider acc' = provider acc"
    using same assms(4) by (simp add: sh)
qed

lemma start_sync_no_kill:
  "filter is_kill (trace (snd (start_sync f a s))) = filter is_kill (trace s)"
  by (simp add: start_sync_sel)

lemma idle_nine_failed_start:
  "next_handle (snd (start_sync contacts_down 9 idle_nine)) = 2"
  "filter is_started (trace (snd (start_sync contacts_down 9 idle_nine))) = [Started 0]"
  by (simp_all add: start_sync_def session_get_def start_monitors_def start_email_def
        start_contacts_def start_events_def Let_def prims info_get_def
        contacts_down_def no_faults_def idle_nine_def host_a_def init_def full_account_def)

lemma recorded_empty:
  "(recorded s a = []) =
     (email_sync_monitors s a = None \<and> contact_sync_monitors s a = None \<and>
      event_sync_monitors s a = None)"
  by (auto simp add: recorded_def List.map_filter_simps split: option.splits)

lemma start_email_returned:
  assumes "fst (start_email f a acc s) = Inr ()"
  shows "(email_sync_monitors (snd (start_email f a acc s)) a \<noteq> None) =
           (applies Email acc \<or> email_sync_monitors s a \<noteq> None)"
    and "filter is_started (trace (snd (start_email f a acc s))) =
           filter is_started (trace s) @ (if applies Email acc then [Started (next_handle s)] else [])"
  using assms
  by (auto simp add: start_email_def prims split: option.splits if_splits)

lemma start_contacts_returned:
  assumes "fst (start_contacts f a acc s) = Inr ()"
  shows "(contact_sync_monitors (snd (start_contacts f a acc s)) a \<noteq> None) =
           (applies Contacts acc \<or> contact_sync_monitors s a \<noteq> None)"
    and "filter is_started (trace (snd (start_contacts f a acc s))) =
           filter is_started (trace s) @ (if applies Contacts acc then [Started (next_handle s)] else [])"
  using assms
  by (auto simp add: start_contacts_def prims split: if_splits)

lemma start_events_returned:
  assumes "fst (start_events f a acc s) = Inr ()"
  shows "(event_sync_monitors (snd (start_events f a acc s)) a \<noteq> None) =
           (applies Events acc \<or> event_sync_monitors s a \<noteq> None)"
    and "filter is_started (trace (snd (start_events f a acc s))) =
           filter is_started (trace s) @ (if applies Events acc then [Started (next_handle s)] else [])"
  using assms
  by (auto simp add: start_events_def prims split: if_splits)

lemma start_monitors_phases:
  assumes "fst (start_monitors f a acc s) = Inr ()"
  shows "fst (start_email f a acc s) = Inr ()"
    and "fst (start_contacts f a acc (snd (start_email f a acc s))) = Inr ()"
    and "fst (start_events f a acc (snd (start_contacts f a acc (snd (start_email f a acc s))))) = Inr ()"
    and "snd (start_monitors f a acc s) =
           snd (start_events f a acc (snd (start_contacts f a acc (snd (start_email f a acc s)))))"
  using assms
  by (simp_all add: start_monitors_def case_prod_beta split: sum.splits)

lemma start_monitors_returned:
  assumes "fst (start_monitors f a acc s) = Inr ()"
  shows "(monitor_of k (snd (start_monitors f a acc s)) a \<noteq> None) =
           (applies k acc \<or> monitor_of k s a \<noteq> None)"
    and "length (filter is_started (trace (snd (start_monitors f a acc s)))) =
           length (filter is_started (trace s)) +
           length (filter (\<lambda>k. applies k acc) [Email, Contacts, Events])"
proof -
  note p = start_monitors_phases [OF assms]
  note e = start_email_returned [OF p(1)]
  note c = start_contacts_returned [OF p(2)]
  note v = start_events_returned [OF p(3)]
  show "(monitor_of k (snd (start_monitors f a acc s)) a \<noteq> None) =
           (applies k acc \<or> monitor_of k s a \<noteq> None)"
  proof (cases k)
    case Email
    then show ?thesis using e(1) by (simp add: p(4))
  next
    case Contacts
    then show ?thesis using c(1) by (simp add: p(4))
  next
    case Events
    then show ?thesis using v(1) by (simp add: p(4))
  qed
  show "length (filter is_started (trace (snd (start_monitors f a acc s)))) =
           length (filter is_started (trace s)) +
           length (filter (\<lambda>k. applies k acc) [Email, Contacts, Events])"
    by (simp add: p(4) v(2) c(2) e(2))
qed

subsection \<open>Handles of running accounts\<close>

lemma recorded_cong:
  assumes "email_sync_monitors s' a = email_sync_monitors s a"
    and "contact_sync_monitors s' a = contact_sync_monitors s a"
    and "event_sync_monitors s' a = event_sync_monitors s a"
  shows "recorded s' a = recorded s a"
  using assms by (simp add: recorded_def List.map_filter_simps split: option.splits)

lemma start_sync_running:
  assumes "a \<in> set (syncing_accounts s)"
  shows "email_sync_monitors (snd (start_sync f a s)) = email_sync_monitors s"
    and "contact_sync_monitors (snd (start_sync f a s)) = contact_sync_monitors s"
    and "event_sync_monitors (snd (start_sync f a s)) = event_sync_monitors s"
  using assms
  by (simp_all add: start_sync_def session_get_def Let_def emit_def write_back_def commit_def
        split: option.splits)

lemma start_sync_added:
  assumes "a \<notin> set (syncing_accounts s)" and "a \<in> set (syncing_accounts (snd (start_sync f a s)))"
  shows "\<exists>acc. accounts s a = Some acc \<and> \<not> storage_fault f a \<and>
           fst (start_monitors f a (acc\<lparr>sync_host := Some (process_identifier s)\<rparr>)
                  (emit (Log Info ''starting sync'' (Some a)) (emit (CallStart a) s))) = Inr ()"
proof (cases "storage_fault f a")
  case True
  with assms show ?thesis
    by (simp add: start_sync_def session_get_def Let_def emit_def)
next
  case False
  show ?thesis
  proof (cases "accounts s a")
    case None
    with assms False show ?thesis
      by (simp add: start_sync_def session_get_def Let_def emit_def)
  next
    case (Some acc)
    show ?thesis
    proof (cases "fst (start_monitors f a (acc\<lparr>sync_host := Some (process_identifier s)\<rparr>)
                  (emit (Log Info ''starting sync'' (Some a)) (emit (CallStart a) s)))")
      case (Inl e)
      from assms show ?thesis
        by (simp add: start_sync_abandoned [OF Some assms(1) False Inl] write_back_def commit_def emit_def)
    next
      case (Inr u)
      with Some False show ?thesis by simp
    qed
  qed
qed

lemma start_sync_added_recorded:
  assumes "a \<notin> set (syncing_accounts s)" and "a \<in> set (syncing_accounts (snd (start_sync f a s)))"
    and "\<not> flagless (accounts s a)"
  shows "recorded (snd (start_sync f a s)) a \<noteq> []"
proof -
  obtain acc where row: "accounts s a = Some acc" and ok: "\<not> storage_fault f a"
    and ret: "fst (start_monitors f a (acc\<lparr>sync_host := Some (process_identifier s)\<rparr>)
                  (emit (Log Info ''starting sync'' (Some a)) (emit (CallStart a) s))) = Inr ()"
    using start_sync_added [OF assms(1,2)] by blast
  from assms(3) row have "\<exists>k. applies k acc"
    by (simp add: flagless_def kind_ex)
  then obtain k where k: "applies k acc" by blast
  have "monitor_of k (snd (start_sync f a s)) a \<noteq> None"
    using start_monitors_returned(1) [OF ret, of k] k
    by (cases k) (simp_all add: start_sync_completed [OF row assms(1) ok ret] write_back_def commit_def emit_def)
  then show ?thesis
    by (cases k) (auto simp add: recorded_empty)
qed

lemma covered_step: "covered c \<Longrightarrow> covered (step x c)"
proof (cases c)
  case (Pair s N)
  assume inv: "covered c"
  show ?thesis
  proof (cases x)
    case (Start f a)
    show ?thesis
      unfolding covered_def Pair Start
    proof (simp only: step.simps fst_conv snd_conv, rule ballI)
      fix b assume b: "b \<in> set (syncing_accounts (snd (start_sync f a s)))"
      let ?N = "if a \<notin> set (syncing_accounts s) \<and>
                   a \<in> set (syncing_accounts (snd (start_sync f a s))) \<and> flagless (accounts s a)
                then insert a N else N"
      show "b \<in> ?N \<or> recorded (snd (start_sync f a s)) b \<noteq> []"
      proof (cases "b = a")
        case False
        with b have "b \<in> set (syncing_accounts s)"
          by (simp add: start_sync_mem)
        with inv have "b \<in> N \<or> recorded s b \<noteq> []"
          by (simp add: covered_def Pair)
        moreover have "recorded (snd (start_sync f a s)) b = recorded s b"
          using False by (intro recorded_cong) simp_all
        ultimately show ?thesis by auto
      next
        case True
        show ?thesis
        proof (cases "a \<in> set (syncing_accounts s)")
          case old: True
          with inv have "a \<in> N \<or> recorded s a \<noteq> []"
            by (simp add: covered_def Pair)
          moreover have "recorded (snd (start_sync f a s)) a = recorded s a"
            by (intro recorded_cong) (simp_all add: start_sync_running [OF old])
          ultimately show ?thesis using True by auto
        next
          case new: False
          show ?thesis
          proof (cases "flagless (accounts s a)")
            case True
            with new b \<open>b = a\<close> show ?thesis by simp
          next
            case False
            from start_sync_added_recorded [OF new _ False] b \<open>b = a\<close> show ?thesis by simp
          qed
        qed
      qed
    qed
  next
    case (Stop f a)
    show ?thesis
      unfolding covered_def Pair Stop
    proof (simp only: step.simps fst_conv snd_conv, rule ballI)
      fix b assume "b \<in> set (syncing_accounts (snd (stop_sync f a s)))"
      then have b: "b \<noteq> a" "b \<in> set (syncing_accounts s)" by simp_all
      with inv have "b \<in> N \<or> recorded s b \<noteq> []"
        by (simp add: covered_def Pair)
      moreover have "recorded (snd (stop_sync f a s)) b = recorded s b"
        using b(1) by (intro recorded_cong) simp_all
      ultimately show "b \<in> N - {a} \<or> recorded (snd (stop_sync f a s)) b \<noteq> []"
        using b(1) by auto
    qed
  next
    case (World db asg cl)
    from inv show ?thesis
      by (simp add: covered_def Pair World recorded_def)
  qed
qed

lemma covered_run: "covered c \<Longrightarrow> covered (run ops c)"
  by (induction ops arbitrary: c) (simp_all add: covered_step)

lemma covered_init: "covered (init pid stealing push registry, {})"
  by (simp add: covered_def init_def)

lemma idle_nine_started:
  "syncing_accounts (snd (start_sync no_faults 9 idle_nine)) = [9]"
  by (simp add: start_sync_def session_get_def start_monitors_def start_email_def
        start_contacts_def start_events_def Let_def prims info_get_def
        no_faults_def idle_nine_def host_a_def init_def full_account_def)

lemma row_gone_tick:
  "poll no_faults [10] row_gone =
     (Inl AttributeError,
      snd (stop_sync no_faults 1
             (emit (Log Info ''sync service stopping sync'' (Some 1))
                (emit (Gauge 0) (acquire [10] row_gone)))))"
proof -
  have d: "accounts_to_sync (acquire [10] row_gone) = []"
    by (simp add: accounts_to_sync_def assigned_def acquire_def claim_next_def emit_def
          overloaded_cpus_def row_gone_def host_a_def init_def)
  have r: "syncing_accounts row_gone = [1, 2]" "accounts row_gone 1 = None"
    by (simp_all add: row_gone_def host_a_def init_def)
  have nf: "\<not> storage_fault no_faults 1"
    by (simp add: no_faults_def)
  show ?thesis
    using nf
    by (simp add: poll_def Let_def d stop_accounts_def r stop_loop_step emit_def
          del: stop_loop.simps(2))
qed

subsection \<open>start_monitors against the launch of the spec\<close>

lemma capabilities_sync_host [simp]: "capabilities (acc\<lparr>sync_host := h\<rparr>) = capabilities acc"
  by (simp add: capabilities_def)

lemma monitor_class_cong:
  assumes "monitor_cls_for s' = monitor_cls_for s"
    and "use_google_push_notifications s' = use_google_push_notifications s"
    and "provider acc' = provider acc"
  shows "monitor_class s' acc' = monitor_class s acc"
proof
  fix k show "monitor_class s' acc' k = monitor_class s acc k"
    using assms by (cases k) simp_all
qed

lemma launch_append:
  "launch f cls a (xs @ ys) n =
     (if snd (launch f cls a xs n)
      then (fst (launch f cls a xs n) @ fst (launch f cls a ys (n + length xs)),
            snd (launch f cls a ys (n + length xs)))
      else (fst (launch f cls a xs n), False))"
  by (induction xs arbitrary: n) (simp_all add: case_prod_beta split: option.splits)

lemma built_append:
  "built k (es @ es') = (case built k es' of Some h \<Rightarrow> Some h | None \<Rightarrow> built k es)"
proof (induction es)
  case Nil
  show ?case by (simp split: option.splits)
next
  case (Cons e es)
  then show ?case by (cases e) (simp_all split: option.splits)
qed

lemma launches_seq:
  assumes "launches f a acc ks1 P1" and "launches f a acc ks2 P2"
  shows "launches f a acc (ks1 @ ks2)
           (\<lambda>s. case P1 s of (Inl e, s1) \<Rightarrow> (Inl e, s1) | (Inr u, s1) \<Rightarrow> P2 s1)"
  unfolding launches_def
proof (intro allI)
  fix s
  let ?c = "monitor_class s acc"
  let ?n = "next_handle s"
  let ?s1 = "snd (P1 s)"
  from assms(1) have p1:
    "trace ?s1 = trace s @ fst (launch f ?c a ks1 ?n)"
    "(fst (P1 s) = Inr ()) = snd (launch f ?c a ks1 ?n)"
    "snd (launch f ?c a ks1 ?n) \<longrightarrow> next_handle ?s1 = ?n + length ks1"
    "monitor_class ?s1 acc = ?c"
    "\<And>k. monitor_of k ?s1 a =
       (case built k (fst (launch f ?c a ks1 ?n)) of None \<Rightarrow> monitor_of k s a | Some h \<Rightarrow> Some h)"
    unfolding launches_def by blast+
  from assms(2) have p2:
    "trace (snd (P2 ?s1)) = trace ?s1 @ fst (launch f (monitor_class ?s1 acc) a ks2 (next_handle ?s1))"
    "(fst (P2 ?s1) = Inr ()) = snd (launch f (monitor_class ?s1 acc) a ks2 (next_handle ?s1))"
    "snd (launch f (monitor_class ?s1 acc) a ks2 (next_handle ?s1)) \<longrightarrow>
       next_handle (snd (P2 ?s1)) = next_handle ?s1 + length ks2"
    "monitor_class (snd (P2 ?s1)) acc = monitor_class ?s1 acc"
    "\<And>k. monitor_of k (snd (P2 ?s1)) a =
       (case built k (fst (launch f (monitor_class ?s1 acc) a ks2 (next_handle ?s1))) of
          None \<Rightarrow> monitor_of k ?s1 a | Some h \<Rightarrow> Some h)"
    unfolding launches_def by blast+
  let ?P = "\<lambda>s. case P1 s of (Inl e, s1) \<Rightarrow> (Inl e, s1) | (Inr u, s1) \<Rightarrow> P2 s1"
  show "trace (snd (?P s)) = trace s @ fst (launch f ?c a (ks1 @ ks2) ?n) \<and>
        (fst (?P s) = Inr ()) = snd (launch f ?c a (ks1 @ ks2) ?n) \<and>
        (snd (launch f ?c a (ks1 @ ks2) ?n) \<longrightarrow>
           next_handle (snd (?P s)) = ?n + length (ks1 @ ks2)) \<and>
        monitor_class (snd (?P s)) acc = ?c \<and>
        (\<forall>k. monitor_of k (snd (?P s)) a =
               (case built k (fst (launch f ?c a (ks1 @ ks2) ?n)) of
                  None \<Rightarrow> monitor_of k s a | Some h \<Rightarrow> Some h))"
  proof (cases "fst (P1 s)")
    case (Inl e)
    then have stop: "\<not> snd (launch f ?c a ks1 ?n)" using p1(2) by simp
    have run: "?P s = (Inl e, ?s1)" using Inl by (simp add: case_prod_beta)
    show ?thesis
      using stop p1(1,4,5) by (simp add: run launch_append)
  next
    case (Inr u)
    then have go: "snd (launch f ?c a ks1 ?n)" using p1(2) by simp
    have run: "?P s = P2 ?s1" using Inr by (simp add: case_prod_beta)
    have n1: "next_handle ?s1 = ?n + length ks1" using go p1(3) by simp
    show ?thesis
      using go p1(1,5) p2
      by (simp add: run launch_append built_append p1(4) n1 add.assoc split: option.splits)
  qed
qed

lemma launches_email:
  "launches f a acc (if applies Email acc then [Email] else []) (start_email f a acc)"
proof -
  have cls: "monitor_class (snd (start_email f a acc s)) acc = monitor_class s acc" for s
    by (intro monitor_class_cong) simp_all
  have maps: "monitor_of k (snd (start_email f a acc s)) a =
       (case built k (fst (launch f (monitor_class s acc) a
                        (if applies Email acc then [Email] else []) (next_handle s))) of
          None \<Rightarrow> monitor_of k s a | Some h \<Rightarrow> Some h)" for s k
    by (cases k) (simp_all add: start_email_def prims split: option.splits)
  show ?thesis
    unfolding launches_def
    by (intro allI conjI cls maps)
       (simp_all add: start_email_def prims split: option.splits)
qed

lemma launches_contacts:
  "launches f a acc (if applies Contacts acc then [Contacts] else []) (start_contacts f a acc)"
proof -
  have cls: "monitor_class (snd (start_contacts f a acc s)) acc = monitor_class s acc" for s
    by (intro monitor_class_cong) simp_all
  have maps: "monitor_of k (snd (start_contacts f a acc s)) a =
       (case built k (fst (launch f (monitor_class s acc) a
                        (if applies Contacts acc then [Contacts] else []) (next_handle s))) of
          None \<Rightarrow> monitor_of k s a | Some h \<Rightarrow> Some h)" for s k
    by (cases k) (simp_all add: start_contacts_def prims)
  show ?thesis
    unfolding launches_def
    by (intro allI conjI cls maps)
       (simp_all add: start_contacts_def prims)
qed

lemma launches_events:
  "launches f a acc (if applies Events acc then [Events] else []) (start_events f a acc)"
proof -
  have cls: "monitor_class (snd (start_events f a acc s)) acc = monitor_class s acc" for s
    by (intro monitor_class_cong) simp_all
  have maps: "monitor_of k (snd (start_events f a acc s)) a =
       (case built k (fst (launch f (monitor_class s acc) a
                        (if applies Events acc then [Events] else []) (next_handle s))) of
          None \<Rightarrow> monitor_of k s a | Some h \<Rightarrow> Some h)" for s k
    by (cases k) (simp_all add: start_events_def prims)
  show ?thesis
    unfolding launches_def
    by (intro allI conjI cls maps)
       (simp_all add: start_events_def prims)
qed

lemma launches_monitors: "launches f a acc (capabilities acc) (start_monitors f a acc)"
proof -
  have caps: "capabilities acc =
      (if applies Email acc then [Email] else []) @
      ((if applies Contacts acc then [Contacts] else []) @
       (if applies Events acc then [Events] else []))"
    by (simp add: capabilities_def)
  have prog: "start_monitors f a acc =
      (\<lambda>s. case start_email f a acc s of
              (Inl e, s1) \<Rightarrow> (Inl e, s1)
            | (Inr u, s1) \<Rightarrow>
                (case start_contacts f a acc s1 of
                   (Inl e, s2) \<Rightarrow> (Inl e, s2)
                 | (Inr u, s2) \<Rightarrow> start_events f a acc s2))"
    by (rule ext) (simp add: start_monitors_def)
  show ?thesis
    unfolding caps prog
    by (intro launches_seq launches_email launches_contacts launches_events)
qed

lemma start_monitors_launch:
  "trace (snd (start_monitors f a acc s)) =
     trace s @ fst (launch f (monitor_class s acc) a (capabilities acc) (next_handle s))"
  "(fst (start_monitors f a acc s) = Inr ()) =
     snd (launch f (monitor_class s acc) a (capabilities acc) (next_handle s))"
  "monitor_of k (snd (start_monitors f a acc s)) a =
     (case built k (fst (launch f (monitor_class s acc) a (capabilities acc) (next_handle s))) of
        None \<Rightarrow> monitor_of k s a
      | Some h \<Rightarrow> Some h)"
  using launches_monitors [of f a acc] unfolding launches_def by blast+

lemma launch_monitor_events: "filter is_monitor (fst (launch f cls a ks n)) = fst (launch f cls a ks n)"
  by (induction ks arbitrary: n) (simp_all add: case_prod_beta split: option.splits)

lemma launch_no_error_log: "filter is_error_log (fst (launch f cls a ks n)) = []"
  by (induction ks arbitrary: n) (simp_all add: case_prod_beta split: option.splits)

lemma launch_stops:
  assumes "k \<in> set ks" and "cls k = None \<or> raises f k a"
  shows "\<not> snd (launch f cls a ks n)"
  using assms
  by (induction ks arbitrary: n)
     (auto simp add: case_prod_beta raises_def split: option.splits)

text \<open>A launch that goes through: one monitor for each kind, each with a handle of its own.\<close>

lemma launch_through:
  assumes "\<forall>k\<in>set ks. cls k \<noteq> None \<and> \<not> raises f k a"
  shows "launch f cls a ks n =
           (concat (map (\<lambda>(k, h). [Constructed k (the (cls k)) a h, Started h])
                      (zip ks [n ..< n + length ks])), True)"
  using assms
proof (induction ks arbitrary: n)
  case Nil
  show ?case by simp
next
  case (Cons k ks)
  have up: "[n ..< n + length (k # ks)] = n # [Suc n ..< Suc n + length ks]"
    using upt_conv_Cons [of n "n + length (k # ks)"] by (simp del: upt_Suc)
  from Cons.prems obtain c where c: "cls k = Some c" by auto
  from Cons.prems have ok: "\<not> ctor_fault f k a" "\<not> start_fault f k a"
    by (simp_all add: raises_def)
  from Cons.prems have rest: "\<forall>k\<in>set ks. cls k \<noteq> None \<and> \<not> raises f k a" by simp
  show ?case
    unfolding up by (simp add: c ok Cons.IH [OF rest])
qed

lemma built_launch_only:
  "built k (fst (launch f cls a ks n)) \<noteq> None \<Longrightarrow> k \<in> set ks"
  by (induction ks arbitrary: n)
     (auto simp add: case_prod_beta split: option.splits if_splits)

lemma built_launch_all:
  "snd (launch f cls a ks n) \<Longrightarrow> k \<in> set ks \<Longrightarrow> built k (fst (launch f cls a ks n)) \<noteq> None"
proof (induction ks arbitrary: n)
  case Nil
  then show ?case by simp
next
  case (Cons x ks)
  from Cons.prems(1) obtain c where c: "cls x = Some c"
    and ok: "\<not> ctor_fault f x a" "\<not> start_fault f x a"
    and rest: "snd (launch f cls a ks (Suc n))"
    by (auto simp add: case_prod_beta split: option.splits if_splits)
  show ?case
  proof (cases "k \<in> set ks")
    case True
    from Cons.IH [OF rest True] show ?thesis
      by (auto simp add: c ok case_prod_beta)
  next
    case False
    with Cons.prems(2) have "k = x" by simp
    then show ?thesis
      by (simp add: c ok case_prod_beta split: option.splits)
  qed
qed

subsection \<open>The diff of a tick that runs to its end\<close>

text \<open>
  \<open>R\<close> is the running set when the tick begins and \<open>D\<close> the desired set, read from
  \<^verbatim>\<open>assigned()\<close> after the acquire phase. In a tick in which every account to be stopped
  still has its row, or fails with a storage error, the tick runs to its end and calls
  \<^verbatim>\<open>start_sync\<close> once for each id of \<open>D\<close> that is not in \<open>R\<close>, then \<^verbatim>\<open>stop_sync\<close> once for each
  id of \<open>R\<close> that is not in \<open>D\<close>. For \<open>R = {1,2,3}\<close> and \<open>D = {2,3,4}\<close> these are the start
  of 4 and the stop of 1.
\<close>

lemma poll_diff:
  assumes "\<forall>a\<in>set (syncing_accounts s) - set (accounts_to_sync (acquire usage_per_cpu s)).
             storage_fault f a \<or> accounts s a \<noteq> None"
  shows "fst (poll f usage_per_cpu s) = Inr () \<and>
         filter is_call (trace (snd (poll f usage_per_cpu s))) =
           filter is_call (trace s) @
           map CallStart (filter (\<lambda>a. a \<notin> set (syncing_accounts s))
                            (accounts_to_sync (acquire usage_per_cpu s))) @
           map CallStop (filter (\<lambda>a. a \<notin> set (accounts_to_sync (acquire usage_per_cpu s)))
                           (syncing_accounts s))"
  using poll_result [OF assms] poll_calls [OF assms] by simp

lemma poll_diff_spec_example:
  "syncing_accounts three_one = [1, 2, 3] \<and>
   accounts_to_sync (acquire [10] three_one) = [2, 3, 4] \<and>
   fst (poll no_faults [10] three_one) = Inr () \<and>
   filter is_call (trace (snd (poll no_faults [10] three_one))) = [CallStart 4, CallStop 1]"
proof -
  have R: "syncing_accounts three_one = [1, 2, 3]"
    by (simp add: three_one_def host_a_def init_def)
  have rows: "\<forall>a\<in>set (syncing_accounts three_one) - set (accounts_to_sync (acquire [10] three_one)).
                storage_fault no_faults a \<or> accounts three_one a \<noteq> None"
    unfolding R three_one_desired by (auto simp: three_one_def host_a_def init_def)
  have "filter is_call (trace three_one) = []"
    by (simp add: three_one_def host_a_def init_def)
  with poll_diff [OF rows] show ?thesis
    by (simp add: three_one_desired R)
qed

lemma trace_emit: "trace (emit e s) = trace s @ [e]"
  by (simp add: emit_def)

lemma trace_write_back: "trace (write_back a acc s) = trace s"
  by (simp add: write_back_def)

lemma mem_capabilities [simp]: "(k \<in> set (capabilities acc)) = applies k acc"
  by (cases k) (auto simp add: capabilities_def)

lemma distinct_capabilities [simp]: "distinct (capabilities acc)"
  by (simp add: capabilities_def)

lemma launch_short:
  "\<not> snd (launch f cls a ks n) \<Longrightarrow>
   length (filter is_started (fst (launch f cls a ks n))) < length ks"
  by (induction ks arbitrary: n)
     (auto simp add: case_prod_beta split: option.splits if_splits)

lemma start_monitors_entry:
  "monitor_class (emit (Log Info ''starting sync'' (Some a)) (emit (CallStart a) s))
     (acc\<lparr>sync_host := h\<rparr>) = monitor_class s acc"
  "next_handle (emit (Log Info ''starting sync'' (Some a)) (emit (CallStart a) s)) = next_handle s"
  "trace (emit (Log Info ''starting sync'' (Some a)) (emit (CallStart a) s)) =
     trace s @ [CallStart a, Log Info ''starting sync'' (Some a)]"
  by (rule monitor_class_cong) (simp_all add: emit_def)

subsection \<open>The handles of a launch that goes through\<close>

lemma built_pairs_only:
  "built k (concat (map (\<lambda>(k, h). [Constructed k (c k) a h, Started h]) ps)) \<noteq> None \<Longrightarrow>
   k \<in> fst ` set ps"
  by (induction ps) (auto split: option.splits if_splits)

lemma built_pairs:
  assumes "distinct (map fst ps)"
  shows "built k (concat (map (\<lambda>(k, h). [Constructed k (c k) a h, Started h]) ps)) = map_of ps k"
  using assms
proof (induction ps)
  case Nil
  show ?case by simp
next
  case (Cons p ps)
  obtain k' h where p: "p = (k', h)" by (cases p)
  let ?rest = "concat (map (\<lambda>(k, h). [Constructed k (c k) a h, Started h]) ps)"
  from Cons have ih: "built k ?rest = map_of ps k" by simp
  show ?case
  proof (cases "k' = k")
    case True
    with Cons.prems p have "k \<notin> fst ` set ps" by simp
    then have "built k ?rest = None"
      using built_pairs_only [of k c a ps] by blast
    then show ?thesis by (simp add: p True)
  next
    case False
    then show ?thesis by (simp add: p ih split: option.splits)
  qed
qed

lemma map_of_handles:
  "(map_of (zip ks [n ..< n + length ks]) k \<noteq> None) = (k \<in> set ks)"
proof -
  have "map fst (zip ks [n ..< n + length ks]) = ks"
    by simp
  then have "fst ` set (zip ks [n ..< n + length ks]) = set ks"
    by (simp flip: set_map)
  then show ?thesis
    by (simp add: map_of_eq_None_iff)
qed

lemma stop_sync_storage_error:
  assumes "storage_fault f a"
  shows "stop_sync f a s =
           (Inl OperationalError,
            stop_monitors a (emit (Log Info ''Stopping monitors'' (Some a)) (emit (CallStop a) s)))"
  using assms by (simp add: stop_sync_def session_get_def Let_def)

section \<open>The claims\<close>

subsection \<open>Admission control\<close>

text \<open>
  Claim C2, as the code has it. One tick calls \<^verbatim>\<open>claim_next\<close> at most once, and it does so
  exactly when stealing is enabled and some sampled core is at or below 90.0. The tick
  declines on load grounds exactly when every sampled core exceeds 90.0, which is also
  the case of the empty sample: \<^verbatim>\<open>all([])\<close> is true. Utilisations are reals, of which the
  floats that psutil returns are a part, with the same order.
\<close>

theorem admission_control:
  "filter is_claim (trace (snd (poll f usage_per_cpu s))) =
   filter is_claim (trace s) @
   (if stealing_enabled s \<and> (\<exists>u\<in>set usage_per_cpu. u \<le> 90)
    then [ClaimNext (process_identifier s)] else [])"
  by (simp add: poll_sel overloaded_cpus_iff not_less)

theorem admission_control_witness:
  "filter is_claim (trace (snd (poll no_faults [95, 95, 10] host_a))) = [ClaimNext ''hostA:0''] \<and>
   filter is_claim (trace (snd (poll no_faults [95, 95, 95] host_a))) = []"
  using admission_control [of no_faults "[95, 95, 10]" host_a]
        admission_control [of no_faults "[95, 95, 95]" host_a]
  by (simp add: host_a_def init_def)

text \<open>
  The claim as stated says that the empty sample is accepted. With stealing enabled and
  the empty sample the tick does not call \<^verbatim>\<open>claim_next\<close>.
\<close>

theorem admission_empty_sample_refuses:
  "stealing_enabled host_a \<and> filter is_claim (trace (snd (poll no_faults [] host_a))) = []"
  by (simp add: poll_sel overloaded_cpus_def host_a_def init_def)

subsection \<open>Stopping an account whose row has disappeared\<close>

text \<open>
  Claim C5. The docstring of \<^verbatim>\<open>stop_sync\<close> says that it does nothing when the account does
  not exist, and \<^verbatim>\<open>start_sync\<close> tests \<^verbatim>\<open>acc is None\<close>. \<^verbatim>\<open>stop_sync\<close> does not: it reads
  \<^verbatim>\<open>acc.sync_should_run\<close> of the missing row. Account 7 is running with an email monitor
  and has no row: the call raises AttributeError, and neither the heartbeat is cleared nor
  the account unassigned.
\<close>

theorem stop_missing_row_raises:
  "fst (stop_sync no_faults 7 (host_a\<lparr>syncing_accounts := [7], email_sync_monitors := [7 \<mapsto> 0]\<rparr>))
     = Inl AttributeError \<and>
   filter is_release (trace (snd (stop_sync no_faults 7
      (host_a\<lparr>syncing_accounts := [7], email_sync_monitors := [7 \<mapsto> 0]\<rparr>)))) = []"
  by (simp add: stop_sync_result stop_sync_def stop_monitors_def stop_email_def stop_contacts_def
        stop_events_def session_get_def Let_def prims no_faults_def host_a_def init_def)

subsection \<open>Stopping an account that is not running\<close>




subsection \<open>A start that fails half way\<close>

text \<open>
  Claim C10. The email monitor of an account is built, recorded and started, and then the
  contacts or the events monitor raises. After this call the email handle is still recorded
  and its monitor was started and not killed, while the account is not in the running set.
  The trace of the call begins with the call itself, its first log line, and the
  construction and start of the email monitor. A second call that gets as far as the email
  monitor records a new handle in place of the old one, and the old one is still not
  killed.
\<close>

theorem start_not_atomic:
  assumes "accounts s a = Some acc" and "a \<notin> set (syncing_accounts s)"
    and "\<not> storage_fault f a"
    and "sync_email acc" and "map_of (monitor_cls_for s) (provider acc) = Some cls"
    and "\<not> raises f Email a"
    and "(applies Contacts acc \<and> raises f Contacts a) \<or> (applies Events acc \<and> raises f Events a)"
    and "s1 = snd (start_sync f a s)"
    and "\<not> storage_fault f' a" and "\<not> raises f' Email a"
    and "s2 = snd (start_sync f' a s1)"
  shows "email_sync_monitors s1 a = Some (next_handle s) \<and>
         (\<exists>post. trace s1 =
            trace s @ [CallStart a, Log Info ''starting sync'' (Some a),
                       Constructed Email cls a (next_handle s), Started (next_handle s)] @ post) \<and>
         filter is_kill (trace s1) = filter is_kill (trace s) \<and>
         a \<notin> set (syncing_accounts s1) \<and>
         email_sync_monitors s2 a = Some (next_handle s1) \<and>
         next_handle s < next_handle s1 \<and>
         filter is_kill (trace s2) = filter is_kill (trace s)"
proof -
  let ?acc1 = "acc\<lparr>sync_host := Some (process_identifier s)\<rparr>"
  let ?s0 = "emit (Log Info ''starting sync'' (Some a)) (emit (CallStart a) s)"
  note first = start_sync_email [OF assms(1-6)]
  have "(sync_email ?acc1 \<and> map_of (monitor_cls_for ?s0) (provider ?acc1) = None) \<or>
        (\<exists>k. applies k ?acc1 \<and> raises f k a)"
    using assms(7) by auto
  from start_monitors_raise [OF this]
  obtain e where e: "fst (start_monitors f a ?acc1 ?s0) = Inl e" by blast
  have out: "a \<notin> set (syncing_accounts s1)"
    using assms(2)
    by (simp add: assms(8) start_sync_abandoned [OF assms(1-3) e] write_back_def commit_def emit_def)
  obtain acc' where row: "accounts s1 a = Some acc'" and em: "sync_email acc'"
      and pr: "provider acc' = provider acc"
    using first(4) assms(8) by blast
  have reg: "map_of (monitor_cls_for s1) (provider acc') = Some cls"
    using assms(5) by (simp add: assms(8) pr)
  note second = start_sync_email [OF row out assms(9) em reg assms(10)]
  have k1: "filter is_kill (trace s1) = filter is_kill (trace s)"
    by (simp add: assms(8) start_sync_no_kill)
  have k2: "filter is_kill (trace s2) = filter is_kill (trace s)"
    by (simp add: assms(11) start_sync_no_kill k1)
  show ?thesis
    using first(1-3) second(1) out k1 k2 by (simp add: assms(8) assms(11))
qed

theorem start_not_atomic_witness:
  "email_sync_monitors (snd (start_sync contacts_down 9 idle_nine)) 9 = Some 0 \<and>
   filter is_started (trace (snd (start_sync contacts_down 9 idle_nine))) = [Started 0] \<and>
   filter is_kill (trace (snd (start_sync contacts_down 9 idle_nine))) = [] \<and>
   9 \<notin> set (syncing_accounts (snd (start_sync contacts_down 9 idle_nine))) \<and>
   email_sync_monitors (snd (start_sync no_faults 9 (snd (start_sync contacts_down 9 idle_nine)))) 9
     = Some 2 \<and>
   filter is_kill (trace (snd (start_sync no_faults 9 (snd (start_sync contacts_down 9 idle_nine)))))
     = []"
proof -
  have row: "accounts idle_nine 9 = Some full_account"
    by (simp add: idle_nine_def host_a_def init_def)
  have off: "9 \<notin> set (syncing_accounts idle_nine)"
    by (simp add: idle_nine_def host_a_def init_def)
  have ok: "\<not> storage_fault contacts_down 9"
    by (simp add: contacts_down_def no_faults_def)
  have em: "sync_email full_account"
    by (simp add: full_account_def)
  have reg: "map_of (monitor_cls_for idle_nine) (provider full_account) = Some ''GmailSyncMonitor''"
    by (simp add: idle_nine_def host_a_def init_def full_account_def)
  have eok: "\<not> raises contacts_down Email 9"
    by (simp add: raises_def contacts_down_def no_faults_def)
  have later: "(applies Contacts full_account \<and> raises contacts_down Contacts 9) \<or>
               (applies Events full_account \<and> raises contacts_down Events 9)"
    by (simp add: full_account_def info_get_def raises_def contacts_down_def)
  have ok2: "\<not> storage_fault no_faults 9" "\<not> raises no_faults Email 9"
    by (simp_all add: raises_def no_faults_def)
  have start: "next_handle idle_nine = 0" "filter is_kill (trace idle_nine) = []"
    by (simp_all add: idle_nine_def host_a_def init_def)
  from start_not_atomic [OF row off ok em reg eok later refl ok2 refl] start
  show ?thesis
    by (simp add: idle_nine_failed_start)
qed

subsection \<open>Invariant I1\<close>

text \<open>
  Claim C9. Start from the state the constructor builds and run any sequence of starts and
  stops, under any faults, with any changes of the rows and of the assignment in between.
  In the state reached, every account id of the running set has a handle recorded in one of
  the three dictionaries, unless it was added to the running set by a start for which none
  of the three capability tests held.
\<close>

theorem invariant_I1:
  "\<forall>a\<in>set (syncing_accounts (fst (run ops (init pid stealing push registry, {})))).
     a \<in> snd (run ops (init pid stealing push registry, {})) \<or>
     recorded (fst (run ops (init pid stealing push registry, {}))) a \<noteq> []"
  using covered_run [OF covered_init, of ops pid stealing push registry]
  by (simp add: covered_def)

theorem invariant_I1_witness:
  "9 \<in> set (syncing_accounts (fst (run [World [9 \<mapsto> full_account] [(9, ''hostA:0'')] [], Start no_faults 9]
       (init ''hostA:0'' True False
          [(''generic'', ''GenericSyncMonitor''), (''gmail'', ''GmailSyncMonitor'')], {})))) \<and>
   recorded (fst (run [World [9 \<mapsto> full_account] [(9, ''hostA:0'')] [], Start no_faults 9]
       (init ''hostA:0'' True False
          [(''generic'', ''GenericSyncMonitor''), (''gmail'', ''GmailSyncMonitor'')], {}))) 9 \<noteq> []"
proof -
  have world: "(init ''hostA:0'' True False
          [(''generic'', ''GenericSyncMonitor''), (''gmail'', ''GmailSyncMonitor'')])
          \<lparr>accounts := [9 \<mapsto> full_account], assignment := [(9, ''hostA:0'')], claimable := []\<rparr>
        = idle_nine"
    by (simp add: idle_nine_def host_a_def init_def)
  have flags: "\<not> flagless (accounts idle_nine 9)"
    by (simp add: flagless_def idle_nine_def host_a_def init_def full_account_def)
  have reached: "run [World [9 \<mapsto> full_account] [(9, ''hostA:0'')] [], Start no_faults 9]
       (init ''hostA:0'' True False
          [(''generic'', ''GenericSyncMonitor''), (''gmail'', ''GmailSyncMonitor'')], {})
        = (snd (start_sync no_faults 9 idle_nine), {})"
    using flags by (simp add: world)
  note th = invariant_I1 [of "[World [9 \<mapsto> full_account] [(9, ''hostA:0'')] [], Start no_faults 9]"
       "''hostA:0''" True False
       "[(''generic'', ''GenericSyncMonitor''), (''gmail'', ''GmailSyncMonitor'')]"]
  from th [unfolded reached]
  have "\<forall>a\<in>set (syncing_accounts (snd (start_sync no_faults 9 idle_nine))).
          a \<in> {} \<or> recorded (snd (start_sync no_faults 9 idle_nine)) a \<noteq> []"
    by simp
  then have "recorded (snd (start_sync no_faults 9 idle_nine)) 9 \<noteq> []"
    by (simp add: idle_nine_started)
  then show ?thesis
    unfolding reached by (simp add: idle_nine_started)
qed

subsection \<open>Failures of one account in the converge phase\<close>

text \<open>
  Claim C8. \<^verbatim>\<open>poll\<close> catches \<^verbatim>\<open>OperationalError\<close> around \<^verbatim>\<open>stop_sync\<close> and nothing else, and
  \<^verbatim>\<open>stop_sync\<close> raises AttributeError for an account whose row is gone, where its docstring
  says that it does nothing. Accounts 1 and 2 run and are no longer assigned, and the row
  of account 1 is gone: the tick ends with that exception after the one call of
  \<^verbatim>\<open>stop_sync\<close>, and account 2, whose own stop would not fail, is still in the running set.
\<close>

theorem converge_aborted_by_other_exception:
  "fst (poll no_faults [10] row_gone) = Inl AttributeError \<and>
   filter is_call (trace (snd (poll no_faults [10] row_gone))) = [CallStop 1] \<and>
   2 \<in> set (syncing_accounts (snd (poll no_faults [10] row_gone)))"
  by (simp add: row_gone_tick stop_sync_sel emit_def acquire_sel)
     (simp add: row_gone_def host_a_def init_def)

subsection \<open>A start that fails\<close>

text \<open>
  Claim C6. The account's row is there, it is read without a storage error, and the account
  is not running, so that \<^verbatim>\<open>start_sync\<close> enters its \<^verbatim>\<open>try\<close> block; there the registry has no
  class for the provider, or the constructor or the start of a monitor of a capability that
  applies raises. Then \<^verbatim>\<open>start_sync\<close> returns normally and the start is abandoned: what the
  call adds to the trace is its own entry, the line "starting sync", the events of the
  launch of the spec, which ends at the first monitor that fails, so that fewer monitors
  are started than capabilities apply, and the one error line "Error starting sync" with
  the account id. The running set is unchanged and does not hold the id, and the row carries
  the owner and no "sync started" marker. If the account is assigned to this process, the
  ids to start of the next tick contain it and that tick calls \<^verbatim>\<open>start_sync\<close> exactly for
  them.
\<close>

theorem start_failure_recovery:
  assumes "accounts s a = Some acc" and "a \<notin> set (syncing_accounts s)"
    and "\<not> storage_fault f a"
    and "(sync_email acc \<and> map_of (monitor_cls_for s) (provider acc) = None) \<or>
         (\<exists>k. applies k acc \<and> raises f k a)"
    and "L = launch f (monitor_class s acc) a (capabilities acc) (next_handle s)"
    and "s1 = snd (start_sync f a s)"
  shows "fst (start_sync f a s) = Inr () \<and>
         \<not> snd L \<and> length (filter is_started (fst L)) < length (capabilities acc) \<and>
         trace s1 =
           trace s @ [CallStart a, Log Info ''starting sync'' (Some a)] @ fst L @
           [Log Error ''Error starting sync'' (Some a)] \<and>
         filter is_error_log (trace s1) =
           filter is_error_log (trace s) @ [Log Error ''Error starting sync'' (Some a)] \<and>
         syncing_accounts s1 = syncing_accounts s \<and> a \<notin> set (syncing_accounts s1) \<and>
         accounts s1 = (accounts s)(a \<mapsto> acc\<lparr>sync_host := Some (process_identifier s)\<rparr>) \<and>
         ((a, process_identifier s) \<in> set (assignment s) \<longrightarrow>
            a \<in> set (filter (\<lambda>b. b \<notin> set (syncing_accounts s1))
                       (accounts_to_sync (acquire u s1))) \<and>
            filter is_start_call (trace (snd (poll f' u s1))) =
              filter is_start_call (trace s1) @
              map CallStart (filter (\<lambda>b. b \<notin> set (syncing_accounts s1))
                               (accounts_to_sync (acquire u s1))))"
proof -
  let ?acc1 = "acc\<lparr>sync_host := Some (process_identifier s)\<rparr>"
  let ?s0 = "emit (Log Info ''starting sync'' (Some a)) (emit (CallStart a) s)"
  let ?sm = "snd (start_monitors f a ?acc1 ?s0)"
  from assms(4) obtain k where "applies k acc" "monitor_class s acc k = None \<or> raises f k a"
  proof
    assume "sync_email acc \<and> map_of (monitor_cls_for s) (provider acc) = None"
    then have "applies Email acc" "monitor_class s acc Email = None \<or> raises f Email a"
      by simp_all
    then show ?thesis by (rule that)
  next
    assume "\<exists>k. applies k acc \<and> raises f k a"
    then obtain k where "applies k acc" "raises f k a" by blast
    then show ?thesis by (intro that [of k]) simp_all
  qed
  then have stop: "\<not> snd L"
    unfolding assms(5) by (intro launch_stops [of k]) simp_all
  have short: "length (filter is_started (fst L)) < length (capabilities acc)"
    using stop unfolding assms(5) by (rule launch_short)
  have "fst (start_monitors f a ?acc1 ?s0) \<noteq> Inr ()"
    using stop by (simp add: start_monitors_launch(2) start_monitors_entry assms(5))
  then obtain e where e: "fst (start_monitors f a ?acc1 ?s0) = Inl e"
    by (cases "fst (start_monitors f a ?acc1 ?s0)") simp_all
  note run = start_sync_abandoned [OF assms(1-3) e]
  have res: "fst (start_sync f a s) = Inr ()"
    by (simp add: run)
  have tm: "trace ?sm = trace s @ [CallStart a, Log Info ''starting sync'' (Some a)] @ fst L"
    by (simp add: start_monitors_launch(1) start_monitors_entry assms(5))
  have tr: "trace s1 = trace s @ [CallStart a, Log Info ''starting sync'' (Some a)] @ fst L @
              [Log Error ''Error starting sync'' (Some a)]"
    by (simp add: assms(6) run write_back_def trace_emit tm)
  have logs: "filter is_error_log (trace s1) =
              filter is_error_log (trace s) @ [Log Error ''Error starting sync'' (Some a)]"
    by (simp add: tr assms(5) launch_no_error_log)
  have same: "syncing_accounts s1 = syncing_accounts s"
    by (simp add: assms(6) run write_back_def emit_def)
  have out: "a \<notin> set (syncing_accounts s1)"
    using assms(2) by (simp add: same)
  have rows: "accounts s1 = (accounts s)(a \<mapsto> ?acc1)"
    by (simp add: assms(6) run write_back_def emit_def)
  have again: "a \<in> set (accounts_to_sync (acquire u s1))"
    if "(a, process_identifier s) \<in> set (assignment s)"
    using that by (intro acquire_keeps_assigned) (simp add: assms(6))
  show ?thesis
    using res stop short tr logs same out rows again by (simp add: poll_starts)
qed

theorem start_failure_recovery_witness:
  "fst (start_sync contacts_down 9 idle_nine) = Inr () \<and>
   trace (snd (start_sync contacts_down 9 idle_nine)) =
     [CallStart 9, Log Info ''starting sync'' (Some 9),
      Constructed Email ''GmailSyncMonitor'' 9 0, Started 0,
      Constructed Contacts ''ContactSync'' 9 1,
      Log Error ''Error starting sync'' (Some 9)] \<and>
   syncing_accounts (snd (start_sync contacts_down 9 idle_nine)) = [] \<and>
   accounts (snd (start_sync contacts_down 9 idle_nine)) 9 =
     Some (full_account\<lparr>sync_host := Some ''hostA:0''\<rparr>) \<and>
   filter is_start_call (trace (snd (poll no_faults [10] (snd (start_sync contacts_down 9 idle_nine))))) =
     [CallStart 9, CallStart 9]"
proof -
  have row: "accounts idle_nine 9 = Some full_account"
    by (simp add: idle_nine_def host_a_def init_def)
  have off: "9 \<notin> set (syncing_accounts idle_nine)"
    by (simp add: idle_nine_def host_a_def init_def)
  have ok: "\<not> storage_fault contacts_down 9"
    by (simp add: contacts_down_def no_faults_def)
  have bad: "(sync_email full_account \<and>
              map_of (monitor_cls_for idle_nine) (provider full_account) = None) \<or>
             (\<exists>k. applies k full_account \<and> raises contacts_down k 9)"
    by (rule disjI2, rule exI [of _ Contacts])
       (simp add: full_account_def info_get_def raises_def contacts_down_def)
  have mine: "(9, process_identifier idle_nine) \<in> set (assignment idle_nine)"
    by (simp add: idle_nine_def host_a_def init_def)
  have before: "trace idle_nine = []" "syncing_accounts idle_nine = []"
    "process_identifier idle_nine = ''hostA:0''"
    by (simp_all add: idle_nine_def host_a_def init_def)
  have launched: "launch contacts_down (monitor_class idle_nine full_account) 9
                    (capabilities full_account) (next_handle idle_nine) =
      ([Constructed Email ''GmailSyncMonitor'' 9 0, Started 0,
        Constructed Contacts ''ContactSync'' 9 1], False)"
    by (simp add: capabilities_def full_account_def info_get_def contacts_down_def no_faults_def
          idle_nine_def host_a_def init_def)
  have desired: "accounts_to_sync (acquire [10] (snd (start_sync contacts_down 9 idle_nine))) = [9]"
    by (simp add: accounts_to_sync_def assigned_def acquire_def claim_next_def emit_def
          overloaded_cpus_def idle_nine_def host_a_def init_def)
  note th = start_failure_recovery [OF row off ok bad refl refl, of "[10]" no_faults]
  from th have r: "fst (start_sync contacts_down 9 idle_nine) = Inr ()"
    by blast
  from th have t: "trace (snd (start_sync contacts_down 9 idle_nine)) =
      trace idle_nine @ [CallStart 9, Log Info ''starting sync'' (Some 9)] @
      fst (launch contacts_down (monitor_class idle_nine full_account) 9
             (capabilities full_account) (next_handle idle_nine)) @
      [Log Error ''Error starting sync'' (Some 9)]"
    by blast
  from th have m: "syncing_accounts (snd (start_sync contacts_down 9 idle_nine)) =
      syncing_accounts idle_nine"
    by blast
  from th have a: "accounts (snd (start_sync contacts_down 9 idle_nine)) =
      (accounts idle_nine)(9 \<mapsto> full_account\<lparr>sync_host := Some (process_identifier idle_nine)\<rparr>)"
    by blast
  from th mine have p: "filter is_start_call
      (trace (snd (poll no_faults [10] (snd (start_sync contacts_down 9 idle_nine))))) =
      filter is_start_call (trace (snd (start_sync contacts_down 9 idle_nine))) @
      map CallStart (filter (\<lambda>b. b \<notin> set (syncing_accounts (snd (start_sync contacts_down 9 idle_nine))))
                       (accounts_to_sync (acquire [10] (snd (start_sync contacts_down 9 idle_nine)))))"
    by blast
  have t': "trace (snd (start_sync contacts_down 9 idle_nine)) =
     [CallStart 9, Log Info ''starting sync'' (Some 9),
      Constructed Email ''GmailSyncMonitor'' 9 0, Started 0,
      Constructed Contacts ''ContactSync'' 9 1,
      Log Error ''Error starting sync'' (Some 9)]"
    by (simp add: t launched before)
  show ?thesis
    using r by (simp add: t' m a p desired before)
qed

subsection \<open>The diff of the converge phase\<close>

text \<open>
  Claim C1. The tick does not always reach every id of the running set that is no longer
  wanted. Accounts 1 and 2 run and nothing is assigned to this process, so that both are to
  be stopped; the row of account 1 is gone. \<^verbatim>\<open>stop_sync(1)\<close> raises AttributeError, which
  \<^verbatim>\<open>poll\<close> does not catch, and the tick ends there: \<^verbatim>\<open>stop_sync\<close> is never called for
  account 2.
\<close>

theorem converge_diff_cut_short:
  "syncing_accounts row_gone = [1, 2] \<and>
   accounts_to_sync (acquire [10] row_gone) = [] \<and>
   stop_accounts (accounts_to_sync (acquire [10] row_gone)) (acquire [10] row_gone) = [1, 2] \<and>
   filter is_call (trace row_gone) = [] \<and>
   filter is_call (trace (snd (poll no_faults [10] row_gone))) = [CallStop 1]"
proof -
  have d: "accounts_to_sync (acquire [10] row_gone) = []"
    by (simp add: accounts_to_sync_def assigned_def acquire_def claim_next_def emit_def
          overloaded_cpus_def row_gone_def host_a_def init_def)
  have r: "syncing_accounts row_gone = [1, 2]" "trace row_gone = []"
    by (simp_all add: row_gone_def host_a_def init_def)
  have t: "stop_accounts [] (acquire [10] row_gone) = [1, 2]"
    by (simp add: stop_accounts_def acquire_def claim_next_def emit_def
          overloaded_cpus_def row_gone_def host_a_def init_def)
  have c: "filter is_call (trace (snd (poll no_faults [10] row_gone))) = [CallStop 1]"
    by (simp add: row_gone_tick stop_sync_sel emit_def acquire_sel r)
  show ?thesis
    by (simp add: d r t c)
qed

subsection \<open>Stopping an account\<close>




subsection \<open>Starting an account twice\<close>




end
